theory Spec2Isabelle
  imports Complex_Main
begin

section \<open>The retrieval service of the helpdesk back end\<close>

text \<open>
  This theory embeds the class \<^verbatim>\<open>RAGService\<close> (second module of
  \<^verbatim>\<open>src/services/faceVerification.js\<close>, lines 166-400): the chunker
  \<^verbatim>\<open>splitIntoChunks\<close>, the scoring function \<^verbatim>\<open>cosineSimilarity\<close>, the index build
  (\<^verbatim>\<open>initialize\<close>, \<^verbatim>\<open>loadAndProcessPDF\<close>, \<^verbatim>\<open>generateChunkEmbeddings\<close>,
  \<^verbatim>\<open>refreshVectorStore\<close>) and the two query entry points.

  Conventions of the embedding.
  \<^item> A JavaScript string is a \<open>string\<close>; positions and lengths count its elements, as
    \<^verbatim>\<open>length\<close> and \<^verbatim>\<open>slice\<close> count code units. Characters are restricted to the
    code units below 256.
  \<^item> Positions, sizes and counts are \<open>int\<close>, because the cursor of the chunker can become
    negative and \<^verbatim>\<open>slice\<close> gives negative positions a meaning.
  \<^item> A number is an IEEE 754 double (type \<open>number\<close> below): every arithmetic operation
    rounds its exact result to the nearest double, ties to even, with overflow to an
    infinity, gradual underflow and NaN. The components of vectors and the similarity
    scores are such numbers.
  \<^item> The constant \<^verbatim>\<open>0.7\<close> of the chunker is the exact fraction 7/10 and its test is
    evaluated exactly; for the size 1000 that the service passes, the double product
    \<^verbatim>\<open>1000 * 0.7\<close> is exactly 700 as well, and so is the sum with a cursor below \<open>2\<^sup>5\<^sup>3\<close>.
  \<^item> A \<^verbatim>\<open>throw\<close> is the left injection of a sum, a \<^verbatim>\<open>try/catch\<close> a case distinction on it.
  \<^item> A loop that may run forever returns \<open>None\<close> when it does.
  \<^item> The two external collaborators (document extraction, embedding provider) are functions
    on an explicit world state, so that their answers may change from call to call.
\<close>

subsection \<open>Errors\<close>

datatype error =
    Error string          \<comment> \<open>\<^verbatim>\<open>new Error(message)\<close> thrown by the service itself\<close>
  | TypeError string      \<comment> \<open>member access on \<^verbatim>\<open>null\<close>\<close>
  | IOError string        \<comment> \<open>rejection of \<^verbatim>\<open>fs.readFile\<close> or \<^verbatim>\<open>pdfParse\<close>\<close>
  | ProviderError string  \<comment> \<open>rejection of \<^verbatim>\<open>embedContent\<close>\<close>

subsection \<open>Numbers\<close>

text \<open>A number of the language is a double: a finite value, one of the two infinities, or
  NaN. A finite double is represented by the real number it denotes. The two zeros are one
  value: they are equal for \<^verbatim>\<open>===\<close>, for \<^verbatim>\<open><\<close> and for the sign test of a comparator, and
  the only zero divisor of the service, a product of two square roots, is the positive
  one.\<close>

datatype number = Num real | PosInf | NegInf | NaN

text \<open>Rounding to the nearest double, ties to even. The doubles around \<open>x\<close> are the
  integer multiples of \<open>quantum x\<close>: 53 significant bits in the binade of \<open>x\<close>, and the
  least exponent \<open>-1022\<close> for the subnormal range. A result of magnitude \<open>2\<^sup>1\<^sup>0\<^sup>2\<^sup>4\<close> or more
  after rounding is an infinity.\<close>

definition round_half_even :: "real \<Rightarrow> int" where
  "round_half_even m =
     (let f = \<lfloor>m\<rfloor>; d = m - of_int f
      in if d < 1 / 2 then f else if 1 / 2 < d then f + 1 else if even f then f else f + 1)"

definition binade :: "real \<Rightarrow> int" where
  "binade x = max \<lfloor>log 2 \<bar>x\<bar>\<rfloor> (- 1022)"

definition quantum :: "real \<Rightarrow> real" where
  "quantum x = 2 powr of_int (binade x - 52)"

definition rnd :: "real \<Rightarrow> number" where
  "rnd x =
     (if x = 0 then Num 0
      else (let r = of_int (round_half_even (x / quantum x)) * quantum x
            in if 2 ^ 1024 \<le> \<bar>r\<bar> then (if 0 < x then PosInf else NegInf) else Num r))"

text \<open>The operators \<^verbatim>\<open>-x\<close>, \<^verbatim>\<open>x + y\<close>, \<^verbatim>\<open>x - y\<close>, \<^verbatim>\<open>x * y\<close>, \<^verbatim>\<open>x / y\<close> and \<^verbatim>\<open>Math.sqrt(x)\<close>
  (correctly rounded, as the square root instruction of the processor is).\<close>

fun nneg :: "number \<Rightarrow> number" where
  "nneg (Num x) = Num (- x)"
| "nneg PosInf = NegInf"
| "nneg NegInf = PosInf"
| "nneg NaN = NaN"

fun nadd :: "number \<Rightarrow> number \<Rightarrow> number" where
  "nadd (Num x) (Num y) = rnd (x + y)"
| "nadd NaN b = NaN"
| "nadd a NaN = NaN"
| "nadd PosInf NegInf = NaN"
| "nadd NegInf PosInf = NaN"
| "nadd PosInf b = PosInf"
| "nadd a PosInf = PosInf"
| "nadd NegInf b = NegInf"
| "nadd a NegInf = NegInf"

definition nsub :: "number \<Rightarrow> number \<Rightarrow> number" where
  "nsub a b = nadd a (nneg b)"

fun nmul :: "number \<Rightarrow> number \<Rightarrow> number" where
  "nmul (Num x) (Num y) = rnd (x * y)"
| "nmul NaN b = NaN"
| "nmul a NaN = NaN"
| "nmul (Num x) b = (if x = 0 then NaN else if (0 < x) = (b = PosInf) then PosInf else NegInf)"
| "nmul a (Num y) = (if y = 0 then NaN else if (0 < y) = (a = PosInf) then PosInf else NegInf)"
| "nmul a b = (if a = b then PosInf else NegInf)"

fun ndiv :: "number \<Rightarrow> number \<Rightarrow> number" where
  "ndiv (Num x) (Num y) =
     (if y = 0 then (if x = 0 then NaN else if 0 < x then PosInf else NegInf)
      else rnd (x / y))"
| "ndiv NaN b = NaN"
| "ndiv a NaN = NaN"
| "ndiv (Num x) b = Num 0"
| "ndiv a (Num y) = (if (0 \<le> y) = (a = PosInf) then PosInf else NegInf)"
| "ndiv a b = NaN"

fun nsqrt :: "number \<Rightarrow> number" where
  "nsqrt (Num x) = (if x < 0 then NaN else rnd (sqrt x))"
| "nsqrt PosInf = PosInf"
| "nsqrt NegInf = NaN"
| "nsqrt NaN = NaN"

text \<open>The test \<^verbatim>\<open>x > 0\<close> that a sort applies to the value of its comparator (NaN counts as
  0 there), and the order \<^verbatim>\<open>x < y\<close>.\<close>

fun is_positive :: "number \<Rightarrow> bool" where
  "is_positive (Num x) = (0 < x)"
| "is_positive PosInf = True"
| "is_positive NegInf = False"
| "is_positive NaN = False"




subsection \<open>Built-in operations of the language\<close>

text \<open>\<^verbatim>\<open>Array.prototype.slice(b, e)\<close> and \<^verbatim>\<open>String.prototype.slice(b, e)\<close>: a negative
  position counts from the end, every position is clamped to the range of the sequence.\<close>

definition js_slice :: "'a list \<Rightarrow> int \<Rightarrow> int \<Rightarrow> 'a list" where
  "js_slice s b e =
     (let len = int (length s);
          lo = (if b < 0 then max (len + b) 0 else min b len);
          hi = (if e < 0 then max (len + e) 0 else min e len)
      in take (nat (hi - lo)) (drop (nat lo) s))"

text \<open>\<^verbatim>\<open>s.lastIndexOf(c)\<close> for a one-character pattern: the position of the last occurrence,
  \<open>-1\<close> when there is none.\<close>

definition lastIndexOf :: "string \<Rightarrow> char \<Rightarrow> int" where
  "lastIndexOf s c =
     (case dropWhile (\<lambda>x. x \<noteq> c) (rev s) of
        [] \<Rightarrow> - 1
      | _ # before \<Rightarrow> int (length before))"

text \<open>White space and line terminators below 256: TAB, LF, VT, FF, CR, SP, NBSP. They are what
  \<^verbatim>\<open>trim\<close> removes and what \<^verbatim>\<open>\s\<close> matches.\<close>

definition is_space :: "char \<Rightarrow> bool" where
  "is_space c = (c \<in> set [CHR 0x09, CHR 0x0A, CHR 0x0B, CHR 0x0C, CHR 0x0D, CHR '' '', CHR 0xA0])"

definition trim :: "string \<Rightarrow> string" where
  "trim s = rev (dropWhile is_space (rev (dropWhile is_space s)))"

definition toLowerCase_char :: "char \<Rightarrow> char" where
  "toLowerCase_char c =
     (let n = (of_char c :: nat)
      in if (65 \<le> n \<and> n \<le> 90) \<or> (192 \<le> n \<and> n \<le> 222 \<and> n \<noteq> 215)
         then char_of (n + 32) else c)"

definition toLowerCase :: "string \<Rightarrow> string" where
  "toLowerCase s = map toLowerCase_char s"

text \<open>\<^verbatim>\<open>s.split(/\s+/)\<close>: the pieces between maximal runs of white space; a run at either end
  of the string leaves an empty piece there.\<close>

function split_ws :: "string \<Rightarrow> string \<Rightarrow> string list" where
  "split_ws cur [] = [cur]"
| "split_ws cur (c # cs) =
     (if is_space c then cur # split_ws [] (dropWhile is_space cs)
      else split_ws (cur @ [c]) cs)"
  by pat_completeness auto
termination
  by (relation "measure (\<lambda>(cur, s). length s)")
     (auto simp: length_dropWhile_le less_Suc_eq_le)

text \<open>\<^verbatim>\<open>xs.join(sep)\<close>.\<close>

fun join :: "string \<Rightarrow> string list \<Rightarrow> string" where
  "join sep [] = []"
| "join sep [x] = x"
| "join sep (x # y # ys) = x @ sep @ join sep (y # ys)"

text \<open>The decimal numeral of a natural number, and \<^verbatim>\<open>x.toFixed(3)\<close>: for a finite \<open>x\<close>
  the sign, then the integer nearest to \<open>|x| * 1000\<close> (the larger one of two) with three
  fractional digits. (From \<open>10\<^sup>2\<^sup>1\<close> on the language prints the exponent notation instead,
  which is not reproduced; similarities do not reach it.)\<close>

fun decimal :: "nat \<Rightarrow> string" where
  "decimal n =
     (if n < 10 then [char_of (48 + n)]
      else decimal (n div 10) @ [char_of (48 + n mod 10)])"

declare decimal.simps [simp del]

definition toFixed3 :: "number \<Rightarrow> string" where
  "toFixed3 v =
     (case v of
        Num x \<Rightarrow>
          (let n = nat \<lfloor>\<bar>x\<bar> * 1000 + 1 / 2\<rfloor>;
               frac = decimal (n mod 1000)
           in (if x < 0 then ''-'' else '''') @ decimal (n div 1000) @ ''.''
              @ replicate (3 - length frac) CHR ''0'' @ frac)
      | PosInf \<Rightarrow> ''Infinity''
      | NegInf \<Rightarrow> ''-Infinity''
      | NaN \<Rightarrow> ''NaN'')"

text \<open>\<^verbatim>\<open>xs.sort(cmp)\<close>: \<open>x\<close> is placed after \<open>y\<close> when \<open>cmp x y\<close> is positive. The language
  fixes the result for a consistent comparator: the elements in ascending order of \<open>cmp\<close>,
  elements that compare equal in their original order (the sort is stable). Insertion
  from the right computes that arrangement.\<close>

fun insert_by :: "('a \<Rightarrow> 'a \<Rightarrow> number) \<Rightarrow> 'a \<Rightarrow> 'a list \<Rightarrow> 'a list" where
  "insert_by cmp x [] = [x]"
| "insert_by cmp x (y # ys) =
     (if \<not> is_positive (cmp x y) then x # y # ys else y # insert_by cmp x ys)"

definition js_sort :: "('a \<Rightarrow> 'a \<Rightarrow> number) \<Rightarrow> 'a list \<Rightarrow> 'a list" where
  "js_sort cmp xs = foldr (insert_by cmp) xs []"

subsection \<open>cosineSimilarity\<close>

text \<open>The loop of lines 301-305 accumulates the dot product and the two sums of squares,
  each step rounded.\<close>

definition cosine_sums :: "number list \<Rightarrow> number list \<Rightarrow> number \<times> number \<times> number" where
  "cosine_sums vecA vecB =
     foldl (\<lambda>(dotProduct, normA, normB) i.
              (nadd dotProduct (nmul (vecA ! i) (vecB ! i)),
               nadd normA (nmul (vecA ! i) (vecA ! i)),
               nadd normB (nmul (vecB ! i) (vecB ! i))))
           (Num 0, Num 0, Num 0) [0..<length vecA]"

definition cosineSimilarity :: "number list \<Rightarrow> number list \<Rightarrow> error + number" where
  "cosineSimilarity vecA vecB =
     (if length vecA \<noteq> length vecB then Inl (Error ''Vectors must have the same length'')
      else (case cosine_sums vecA vecB of
              (dotProduct, sumA, sumB) \<Rightarrow>
                (let normA = nsqrt sumA; normB = nsqrt sumB
                 in if normA = Num 0 \<or> normB = Num 0 then Inr (Num 0)
                    else Inr (ndiv dotProduct (nmul normA normB)))))"

text \<open>The three quantities of the function by themselves, to state its properties: the
  dot product as the loop accumulates it, the sum of squares, and the norm that line 307
  takes from it.\<close>

definition dot_product :: "number list \<Rightarrow> number list \<Rightarrow> number" where
  "dot_product vecA vecB = foldl (\<lambda>acc (x, y). nadd acc (nmul x y)) (Num 0) (zip vecA vecB)"

definition sum_squares :: "number list \<Rightarrow> number" where
  "sum_squares v = foldl (\<lambda>acc x. nadd acc (nmul x x)) (Num 0) v"

definition vec_norm :: "number list \<Rightarrow> number" where
  "vec_norm v = nsqrt (sum_squares v)"

subsection \<open>splitIntoChunks\<close>

text \<open>One pass through the body of the \<^verbatim>\<open>while\<close> loop (lines 228-245): the new cursor and
  the chunk cut, before trimming. \<open>breakPoint\<close> is a position inside \<open>chunk\<close>.\<close>

definition chunk_step :: "string \<Rightarrow> int \<Rightarrow> int \<Rightarrow> int \<Rightarrow> int \<times> string" where
  "chunk_step text chunkSize overlap start =
     (let end' = min (start + chunkSize) (int (length text));
          chunk = js_slice text start end'
      in if end' < int (length text) then
           (let lastPeriod = lastIndexOf chunk CHR ''.'';
                lastNewline = lastIndexOf chunk CHR 0x0A;
                breakPoint = max lastPeriod lastNewline
            in if real_of_int breakPoint > real_of_int start + real_of_int chunkSize * (7 / 10)
               then (start + breakPoint + 1 - overlap,
                     js_slice text start (start + breakPoint + 1))
               else (end' - overlap, chunk))
         else (end', chunk))"

partial_function (option) split_loop ::
  "string \<Rightarrow> int \<Rightarrow> int \<Rightarrow> int \<Rightarrow> string list \<Rightarrow> string list option" where
  "split_loop text chunkSize overlap start chunks =
     (if start < int (length text) then
        (case chunk_step text chunkSize overlap start of
           (start', chunk) \<Rightarrow>
             split_loop text chunkSize overlap start'
               (if 50 < length (trim chunk) then chunks @ [trim chunk] else chunks))
      else Some chunks)"

declare split_loop.simps [code]

definition splitIntoChunks :: "string \<Rightarrow> int \<Rightarrow> int \<Rightarrow> string list option" where
  "splitIntoChunks text chunkSize overlap = split_loop text chunkSize overlap 0 []"

subsection \<open>The state of the service and its collaborators\<close>

record embedded_chunk =
  chunk :: string
  embedding :: "number list"
  index :: nat

record scored_chunk = embedded_chunk +
  similarity :: number

text \<open>The fields set by the constructor. \<open>embeddings\<close> tells whether the handle of the
  embedding model has been created (it is \<^verbatim>\<open>null\<close> until \<^verbatim>\<open>initialize\<close> runs).\<close>

record rag_state =
  embeddings :: bool
  documentChunks :: "string list"
  chunkEmbeddings :: "embedded_chunk list"
  isInitialized :: bool

definition init_state :: rag_state where
  "init_state =
     \<lparr>embeddings = False, documentChunks = [], chunkEmbeddings = [], isInitialized = False\<rparr>"

text \<open>\<open>extractText\<close> stands for \<^verbatim>\<open>fs.readFile(PDF_PATH)\<close> followed by \<^verbatim>\<open>pdfParse\<close> and the
  selection of \<^verbatim>\<open>.text\<close>; \<open>embedContent\<close> for the call of the provider and the selection of
  \<^verbatim>\<open>.embedding.values\<close>. Both may fail and both may change the world.\<close>

record 'w collaborators =
  extractText :: "'w \<Rightarrow> (error + string) \<times> 'w"
  embedContent :: "string \<Rightarrow> 'w \<Rightarrow> (error + number list) \<times> 'w"

type_synonym ('a, 'w) outcome = "((error + 'a) \<times> rag_state \<times> 'w) option"

subsection \<open>Building the index\<close>

definition getEmbedding ::
  "'w collaborators \<Rightarrow> rag_state \<Rightarrow> string \<Rightarrow> 'w \<Rightarrow> (error + number list) \<times> 'w" where
  "getEmbedding c s text w =
     (if embeddings s then embedContent c text w
      else (Inl (TypeError ''Cannot read properties of null''), w))"

text \<open>The \<^verbatim>\<open>for\<close> loop of \<^verbatim>\<open>generateChunkEmbeddings\<close>, at position \<open>i\<close> with the chunks from
  there on: each embedding is pushed as soon as it arrives, and the first failure leaves the
  loop with what has been pushed.\<close>

fun embed_loop ::
  "'w collaborators \<Rightarrow> nat \<Rightarrow> string list \<Rightarrow> rag_state \<Rightarrow> 'w \<Rightarrow> (error + unit) \<times> rag_state \<times> 'w" where
  "embed_loop c i [] s w = (Inr (), s, w)"
| "embed_loop c i (ch # rest) s w =
     (case getEmbedding c s ch w of
        (Inl e, w') \<Rightarrow> (Inl e, s, w')
      | (Inr emb, w') \<Rightarrow>
          embed_loop c (Suc i) rest
            (s\<lparr>chunkEmbeddings :=
                 chunkEmbeddings s @ [\<lparr>chunk = ch, embedding = emb, index = i\<rparr>]\<rparr>) w')"

definition generateChunkEmbeddings ::
  "'w collaborators \<Rightarrow> rag_state \<Rightarrow> 'w \<Rightarrow> (error + unit) \<times> rag_state \<times> 'w" where
  "generateChunkEmbeddings c s w =
     embed_loop c 0 (documentChunks s) (s\<lparr>chunkEmbeddings := []\<rparr>) w"

definition loadAndProcessPDF :: "'w collaborators \<Rightarrow> rag_state \<Rightarrow> 'w \<Rightarrow> (unit, 'w) outcome" where
  "loadAndProcessPDF c s w =
     (case extractText c w of
        (Inl e, w') \<Rightarrow> Some (Inl e, s, w')
      | (Inr fullText, w') \<Rightarrow>
          (case splitIntoChunks fullText 1000 200 of
             None \<Rightarrow> None
           | Some chunks \<Rightarrow> Some (generateChunkEmbeddings c (s\<lparr>documentChunks := chunks\<rparr>) w')))"

definition initialize :: "'w collaborators \<Rightarrow> rag_state \<Rightarrow> 'w \<Rightarrow> (unit, 'w) outcome" where
  "initialize c s w =
     (case loadAndProcessPDF c (s\<lparr>embeddings := True\<rparr>) w of
        None \<Rightarrow> None
      | Some (Inl e, s', w') \<Rightarrow> Some (Inl e, s', w')
      | Some (Inr u, s', w') \<Rightarrow> Some (Inr (), s'\<lparr>isInitialized := True\<rparr>, w'))"

definition refreshVectorStore :: "'w collaborators \<Rightarrow> rag_state \<Rightarrow> 'w \<Rightarrow> (unit, 'w) outcome" where
  "refreshVectorStore c s w =
     (case loadAndProcessPDF c
             (s\<lparr>isInitialized := False, documentChunks := [], chunkEmbeddings := []\<rparr>) w of
        None \<Rightarrow> None
      | Some (Inl e, s', w') \<Rightarrow> Some (Inl e, s', w')
      | Some (Inr u, s', w') \<Rightarrow> Some (Inr (), s'\<lparr>isInitialized := True\<rparr>, w'))"

subsection \<open>Queries\<close>

text \<open>Lines 329-332: the \<^verbatim>\<open>map\<close> that scores every stored chunk; the first
  \<^verbatim>\<open>cosineSimilarity\<close> that throws ends it.\<close>

fun similarities_of :: "number list \<Rightarrow> embedded_chunk list \<Rightarrow> error + scored_chunk list" where
  "similarities_of queryEmbedding [] = Inr []"
| "similarities_of queryEmbedding (chunkData # rest) =
     (case cosineSimilarity queryEmbedding (embedding chunkData) of
        Inl e \<Rightarrow> Inl e
      | Inr sim \<Rightarrow>
          (case similarities_of queryEmbedding rest of
             Inl e \<Rightarrow> Inl e
           | Inr scored \<Rightarrow>
               Inr (\<lparr>chunk = chunk chunkData, embedding = embedding chunkData,
                     index = index chunkData, similarity = sim\<rparr> # scored)))"

text \<open>Lines 329-337: score, sort by descending similarity, keep the first \<open>k\<close>.\<close>

definition topK :: "number list \<Rightarrow> int \<Rightarrow> embedded_chunk list \<Rightarrow> error + scored_chunk list" where
  "topK queryEmbedding k stored =
     (case similarities_of queryEmbedding stored of
        Inl e \<Rightarrow> Inl e
      | Inr similarities \<Rightarrow>
          Inr (js_slice (js_sort (\<lambda>a b. nsub (similarity b) (similarity a)) similarities) 0 k))"

text \<open>Lines 343-345: the text returned for the selected chunks.\<close>

definition format_section :: "scored_chunk \<Rightarrow> nat \<Rightarrow> string" where
  "format_section result i =
     ''Relevant Section '' @ decimal (i + 1) @ '' (Similarity: ''
       @ toFixed3 (similarity result) @ ''):'' @ [CHR 0x0A] @ chunk result @ [CHR 0x0A]"

definition format_context :: "scored_chunk list \<Rightarrow> string" where
  "format_context topResults =
     join [CHR 0x0A] (map (\<lambda>(result, i). format_section result i)
                          (zip topResults [0..<length topResults]))"

text \<open>The \<^verbatim>\<open>try\<close> block of \<^verbatim>\<open>searchRelevantContext\<close> (lines 319-347), then the function with
  its \<^verbatim>\<open>catch\<close> (lines 348-352).\<close>

definition searchRelevantContext_try ::
  "'w collaborators \<Rightarrow> string \<Rightarrow> int \<Rightarrow> rag_state \<Rightarrow> 'w \<Rightarrow> (string, 'w) outcome" where
  "searchRelevantContext_try c query k s w =
     (case (if \<not> isInitialized s then initialize c s w else Some (Inr (), s, w)) of
        None \<Rightarrow> None
      | Some (Inl e, s1, w1) \<Rightarrow> Some (Inl e, s1, w1)
      | Some (Inr u, s1, w1) \<Rightarrow>
          (case getEmbedding c s1 query w1 of
             (Inl e, w2) \<Rightarrow> Some (Inl e, s1, w2)
           | (Inr queryEmbedding, w2) \<Rightarrow>
               (case topK queryEmbedding k (chunkEmbeddings s1) of
                  Inl e \<Rightarrow> Some (Inl e, s1, w2)
                | Inr topResults \<Rightarrow> Some (Inr (format_context topResults), s1, w2))))"

definition searchRelevantContext ::
  "'w collaborators \<Rightarrow> string \<Rightarrow> int \<Rightarrow> rag_state \<Rightarrow> 'w \<Rightarrow> (string, 'w) outcome" where
  "searchRelevantContext c query k s w =
     (case searchRelevantContext_try c query k s w of
        None \<Rightarrow> None
      | Some (Inl e, s', w') \<Rightarrow> Some (Inr '''', s', w')
      | Some (Inr relevantContext, s', w') \<Rightarrow> Some (Inr relevantContext, s', w'))"

definition extractSearchTerms :: "string \<Rightarrow> string" where
  "extractSearchTerms message =
     join '' '' (js_slice (filter (\<lambda>word. 3 < length word) (split_ws [] (toLowerCase message))) 0 5)"

text \<open>The \<^verbatim>\<open>try\<close> block of \<^verbatim>\<open>getRelevantSections\<close> (lines 357-367), then the function with
  its \<^verbatim>\<open>catch\<close> (lines 368-371).\<close>

definition getRelevantSections_try ::
  "'w collaborators \<Rightarrow> string \<Rightarrow> int \<Rightarrow> rag_state \<Rightarrow> 'w \<Rightarrow> (string, 'w) outcome" where
  "getRelevantSections_try c userMessage maxChunks s w =
     (case (if \<not> isInitialized s then initialize c s w else Some (Inr (), s, w)) of
        None \<Rightarrow> None
      | Some (Inl e, s1, w1) \<Rightarrow> Some (Inl e, s1, w1)
      | Some (Inr u, s1, w1) \<Rightarrow>
          searchRelevantContext c (extractSearchTerms userMessage) maxChunks s1 w1)"

definition getRelevantSections ::
  "'w collaborators \<Rightarrow> string \<Rightarrow> int \<Rightarrow> rag_state \<Rightarrow> 'w \<Rightarrow> (string, 'w) outcome" where
  "getRelevantSections c userMessage maxChunks s w =
     (case getRelevantSections_try c userMessage maxChunks s w of
        None \<Rightarrow> None
      | Some (Inl e, s', w') \<Rightarrow> Some (Inr '''', s', w')
      | Some (Inr relevantContext, s', w') \<Rightarrow> Some (Inr relevantContext, s', w'))"

subsection \<open>Sequences of operations\<close>

datatype operation =
    Initialize
  | RefreshVectorStore
  | SearchRelevantContext string int
  | GetRelevantSections string int

fun run_op :: "'w collaborators \<Rightarrow> operation \<Rightarrow> rag_state \<Rightarrow> 'w \<Rightarrow> (rag_state \<times> 'w) option" where
  "run_op c Initialize s w = map_option snd (initialize c s w)"
| "run_op c RefreshVectorStore s w = map_option snd (refreshVectorStore c s w)"
| "run_op c (SearchRelevantContext query k) s w = map_option snd (searchRelevantContext c query k s w)"
| "run_op c (GetRelevantSections userMessage maxChunks) s w =
     map_option snd (getRelevantSections c userMessage maxChunks s w)"

fun run_ops :: "'w collaborators \<Rightarrow> operation list \<Rightarrow> rag_state \<Rightarrow> 'w \<Rightarrow> (rag_state \<times> 'w) option" where
  "run_ops c [] s w = Some (s, w)"
| "run_ops c (operation # rest) s w =
     (case run_op c operation s w of
        None \<Rightarrow> None
      | Some (s', w') \<Rightarrow> run_ops c rest s' w')"

text \<open>The answers of the provider to a list of chunks, asked in order from the world \<open>w\<close>
  until the first failure: the vectors received, the error that ended the run if there was
  one, and the world afterwards.\<close>

fun provider_run ::
  "'w collaborators \<Rightarrow> string list \<Rightarrow> 'w \<Rightarrow> number list list \<times> error option \<times> 'w" where
  "provider_run c [] w = ([], None, w)"
| "provider_run c (ch # rest) w =
     (case embedContent c ch w of
        (Inl e, w') \<Rightarrow> ([], Some e, w')
      | (Inr v, w') \<Rightarrow>
          (case provider_run c rest w' of (vs, r, w'') \<Rightarrow> (v # vs, r, w'')))"

text \<open>The entries that pair the chunks with the vectors, position by position, numbered
  from \<open>i\<close>; there are as many as the shorter list has elements.\<close>

fun entries_from :: "nat \<Rightarrow> string list \<Rightarrow> number list list \<Rightarrow> embedded_chunk list" where
  "entries_from i (ch # chunks) (v # vs) =
     \<lparr>chunk = ch, embedding = v, index = i\<rparr> # entries_from (Suc i) chunks vs"
| "entries_from i chunks vs = []"

definition stored_entries :: "string list \<Rightarrow> number list list \<Rightarrow> embedded_chunk list" where
  "stored_entries chunks vs = entries_from 0 chunks vs"

text \<open>The index holds the first chunks of the document: its entries are those of the
  first chunks of \<open>documentChunks\<close> with the vectors that the provider gave for them, one
  after the other, from the world \<open>w\<close>. It is fully built when it holds all chunks.\<close>

definition holds_first_chunks :: "'w collaborators \<Rightarrow> rag_state \<Rightarrow> 'w \<Rightarrow> bool" where
  "holds_first_chunks c s w =
     (case provider_run c (take (length (chunkEmbeddings s)) (documentChunks s)) w of
        (vs, r, w') \<Rightarrow> r = None \<and> chunkEmbeddings s = stored_entries (documentChunks s) vs)"

definition prefix_built :: "'w collaborators \<Rightarrow> rag_state \<Rightarrow> bool" where
  "prefix_built c s \<longleftrightarrow> (\<exists>w. holds_first_chunks c s w)"

definition fully_built :: "'w collaborators \<Rightarrow> rag_state \<Rightarrow> bool" where
  "fully_built c s \<longleftrightarrow>
     prefix_built c s \<and> length (chunkEmbeddings s) = length (documentChunks s)"

text \<open>The result of a build whose embedding run ended with \<open>r\<close>.\<close>

definition build_result :: "error option \<Rightarrow> error + unit" where
  "build_result r = (case r of None \<Rightarrow> Inr () | Some e \<Rightarrow> Inl e)"


subsection \<open>Scripted collaborators for concrete runs\<close>

text \<open>The world counts the calls made so far. The document source delivers \<open>doc\<close> for the
  first \<open>readable\<close> calls and fails afterwards; the provider fails at the calls selected by
  \<open>failing\<close> and returns a fixed vector otherwise.\<close>

record world =
  reads :: nat
  embeds :: nat

definition scripted :: "string \<Rightarrow> nat \<Rightarrow> (nat \<Rightarrow> bool) \<Rightarrow> world collaborators" where
  "scripted doc readable failing =
     \<lparr>extractText = (\<lambda>w. (if reads w < readable then Inr doc else Inl (IOError ''ENOENT''),
                           w\<lparr>reads := reads w + 1\<rparr>)),
      embedContent = (\<lambda>text w. (if failing (embeds w) then Inl (ProviderError ''quota exceeded'')
                                 else Inr [Num 1, Num 0],
                                 w\<lparr>embeds := embeds w + 1\<rparr>))\<rparr>"

definition never_fails :: "nat \<Rightarrow> bool" where
  "never_fails n = False"

definition always_fails :: "nat \<Rightarrow> bool" where
  "always_fails n = True"

definition fails_at :: "nat \<Rightarrow> nat \<Rightarrow> bool" where
  "fails_at k n = (n = k)"

definition short_doc :: string where
  "short_doc = replicate 60 CHR ''a''"

definition long_doc :: string where
  "long_doc = replicate 1500 CHR ''a''"

definition sentence_doc :: string where
  "sentence_doc = replicate 1700 CHR ''a'' @ CHR ''.'' # replicate 299 CHR ''a''"

text \<open>The index built from \<open>short_doc\<close> (one chunk), the state left when the second of
  the two chunks of \<open>long_doc\<close> could not be embedded, and three stored chunks of which two
  score the same against the query \<open>[1, 0]\<close>.\<close>

definition short_index :: rag_state where
  "short_index =
     \<lparr>embeddings = True, documentChunks = [short_doc],
      chunkEmbeddings = [\<lparr>chunk = short_doc, embedding = [Num 1, Num 0], index = 0\<rparr>],
      isInitialized = True\<rparr>"

definition partial_index :: "bool \<Rightarrow> rag_state" where
  "partial_index initialized =
     \<lparr>embeddings = True,
      documentChunks = [replicate 1000 CHR ''a'', replicate 700 CHR ''a''],
      chunkEmbeddings = [\<lparr>chunk = replicate 1000 CHR ''a'', embedding = [Num 1, Num 0], index = 0\<rparr>],
      isInitialized = initialized\<rparr>"

definition emptied_index :: rag_state where
  "emptied_index =
     \<lparr>embeddings = True, documentChunks = [], chunkEmbeddings = [], isInitialized = False\<rparr>"


subsection \<open>Failures inside getRelevantSections\<close>

text \<open>Some step inside \<^verbatim>\<open>getRelevantSections\<close> threw: its own call of \<^verbatim>\<open>initialize\<close>, or a
  step of the \<^verbatim>\<open>try\<close> block of the nested \<^verbatim>\<open>searchRelevantContext\<close>.\<close>

definition internal_failure ::
  "'w collaborators \<Rightarrow> string \<Rightarrow> int \<Rightarrow> rag_state \<Rightarrow> 'w \<Rightarrow> bool" where
  "internal_failure c userMessage maxChunks s w =
     (case (if \<not> isInitialized s then initialize c s w else Some (Inr (), s, w)) of
        None \<Rightarrow> False
      | Some (Inl e, s1, w1) \<Rightarrow> True
      | Some (Inr u, s1, w1) \<Rightarrow>
          (case searchRelevantContext_try c (extractSearchTerms userMessage) maxChunks s1 w1 of
             None \<Rightarrow> False
           | Some (Inl e, s2, w2) \<Rightarrow> True
           | Some (Inr r, s2, w2) \<Rightarrow> False))"

section \<open>Properties of rounding\<close>

lemma round_half_even_error: "\<bar>of_int (round_half_even m) - m\<bar> \<le> 1 / 2"
  unfolding round_half_even_def Let_def by (auto; linarith)

lemma round_half_even_of_int: "round_half_even (of_int k) = k"
  by (simp add: round_half_even_def)

lemma round_half_even_half: "round_half_even (1 / 2) = 0" "round_half_even (- (1 / 2)) = 0"
  by (simp_all add: round_half_even_def)

lemma round_half_even_small: "\<bar>m\<bar> \<le> 1 / 2 \<Longrightarrow> round_half_even m = 0"
proof -
  assume a: "\<bar>m\<bar> \<le> 1 / 2"
  consider "m = 1 / 2" | "m = - (1 / 2)" | "\<bar>m\<bar> < 1 / 2"
    using a by fastforce
  then show ?thesis
  proof cases
    case 1
    then show ?thesis by (simp only: round_half_even_half)
  next
    case 2
    then show ?thesis by (simp only: round_half_even_half)
  next
    case 3
    have "\<bar>real_of_int (round_half_even m)\<bar> < 1"
      using round_half_even_error[of m] 3 by linarith
    then show ?thesis by linarith
  qed
qed




lemma quantum_pos: "0 < quantum x"
  by (simp add: quantum_def)

lemma binade_window:
  assumes "x \<noteq> 0"
  shows "(2::real) powr of_int \<lfloor>log 2 \<bar>x\<bar>\<rfloor> \<le> \<bar>x\<bar>"
    "\<bar>x\<bar> < (2::real) powr (of_int \<lfloor>log 2 \<bar>x\<bar>\<rfloor> + 1)"
  using assms floor_log_eq_powr_iff[of "\<bar>x\<bar>" 2 "\<lfloor>log 2 \<bar>x\<bar>\<rfloor>"] by auto


lemma binade_subnormal:
  assumes "x \<noteq> 0" "\<bar>x\<bar> < 2 powr (- 1022)"
  shows "binade x = - 1022"
proof -
  have "(2::real) powr of_int \<lfloor>log 2 \<bar>x\<bar>\<rfloor> < 2 powr (- 1022)"
    using binade_window(1)[OF assms(1)] assms(2) by linarith
  then have "real_of_int \<lfloor>log 2 \<bar>x\<bar>\<rfloor> < - 1022" by simp
  then have "\<lfloor>log 2 \<bar>x\<bar>\<rfloor> < - 1022" by linarith
  then show ?thesis by (simp add: binade_def)
qed

lemma binade_normal:
  assumes "2 powr (- 1022) \<le> \<bar>x\<bar>"
  shows "binade x = \<lfloor>log 2 \<bar>x\<bar>\<rfloor>"
    "2 powr of_int (binade x) \<le> \<bar>x\<bar>" "\<bar>x\<bar> < 2 powr (of_int (binade x) + 1)"
proof -
  have nz: "x \<noteq> 0" using assms by auto
  have "(2::real) powr (- 1022) < 2 powr (of_int \<lfloor>log 2 \<bar>x\<bar>\<rfloor> + 1)"
    using binade_window(2)[OF nz] assms by linarith
  then have "- 1022 < real_of_int \<lfloor>log 2 \<bar>x\<bar>\<rfloor> + 1" by simp
  then have "- 1022 \<le> \<lfloor>log 2 \<bar>x\<bar>\<rfloor>" by linarith
  then show b: "binade x = \<lfloor>log 2 \<bar>x\<bar>\<rfloor>" by (simp add: binade_def)
  show "2 powr of_int (binade x) \<le> \<bar>x\<bar>" "\<bar>x\<bar> < 2 powr (of_int (binade x) + 1)"
    using binade_window[OF nz] b by simp_all
qed

lemma binade_ge: "- 1022 \<le> binade x"
  by (simp add: binade_def)

text \<open>Every quantum is a power of two times the least one.\<close>

lemma quantum_grid: "quantum x = 2 ^ nat (binade x + 1022) * 2 powr (- 1074)"
proof -
  have "real_of_int (binade x - 52) = real (nat (binade x + 1022)) + (- 1074)"
    using binade_ge[of x] by simp
  then have "quantum x = 2 powr (real (nat (binade x + 1022))) * 2 powr (- 1074)"
    unfolding quantum_def by (simp only: powr_add)
  then show ?thesis by (simp add: powr_realpow)
qed

lemma quantum_least: "2 powr (- 1074) \<le> quantum x"
proof -
  have "(1::real) \<le> 2 ^ nat (binade x + 1022)" by simp
  then show ?thesis unfolding quantum_grid
    by (metis mult.commute mult_le_cancel_left1 powr_gt_zero zero_less_numeral mult_left_mono
        mult_1 order_less_imp_le)
qed

lemma rnd_underflow:
  assumes "\<bar>x\<bar> \<le> 2 powr (- 1075)"
  shows "rnd x = Num 0"
proof (cases "x = 0")
  case True
  then show ?thesis by (simp add: rnd_def)
next
  case False
  have "(2::real) powr (- 1075) < 2 powr (- 1022)" by simp
  with assms have "\<bar>x\<bar> < 2 powr (- 1022)" by linarith
  then have "binade x = - 1022" using False by (rule binade_subnormal[rotated])
  then have q: "quantum x = 2 powr (- 1074)" by (simp add: quantum_def)
  have "(2::real) powr (- 1075) = 2 powr (- 1074) / 2"
    by (simp add: powr_diff[of 2 "- 1074" 1, simplified])
  then have "\<bar>x / quantum x\<bar> \<le> 1 / 2"
    using assms by (simp add: q field_simps)
  then have "round_half_even (x / quantum x) = 0" by (rule round_half_even_small)
  then show ?thesis using False by (simp add: rnd_def)
qed

lemma rnd_exact:
  assumes "x = of_int n * quantum x" "\<bar>x\<bar> < 2 ^ 1024"
  shows "rnd x = Num x"
proof (cases "x = 0")
  case True
  then show ?thesis by (simp add: rnd_def)
next
  case False
  have "x / quantum x = of_int n"
    using assms(1) quantum_pos[of x] by (metis nonzero_eq_divide_eq order_less_irrefl)
  then have "of_int (round_half_even (x / quantum x)) * quantum x = x"
    using assms(1) by (simp add: round_half_even_of_int)
  then show ?thesis using False assms(2) by (simp add: rnd_def Let_def)
qed

lemma rnd_of_int:
  assumes "\<bar>k\<bar> < 2 ^ 53"
  shows "rnd (of_int k) = Num (of_int k)"
proof (cases "k = 0")
  case True
  then show ?thesis by (simp add: rnd_def)
next
  case False
  let ?x = "real_of_int k"
  have "1 \<le> \<bar>k\<bar>" using False by linarith
  then have "real_of_int 1 \<le> real_of_int \<bar>k\<bar>" by (simp only: of_int_le_iff)
  then have one: "1 \<le> \<bar>?x\<bar>" by simp
  have "(2::real) powr (- 1022) \<le> 2 powr 0" by (intro powr_mono) simp_all
  then have n: "2 powr (- 1022) \<le> \<bar>?x\<bar>" using one by simp
  have lt: "\<bar>?x\<bar> < 2 powr 53"
  proof -
    have "\<bar>?x\<bar> < 2 ^ 53" using assms by (metis of_int_abs of_int_less_numeral_power_cancel_iff)
    then show ?thesis by (simp add: powr_realpow[symmetric])
  qed
  have "(2::real) powr of_int (binade ?x) < 2 powr 53" using binade_normal(2)[OF n] lt by linarith
  then have "real_of_int (binade ?x) < 53" by (rule powr_less_cancel) simp
  then have hi: "binade ?x \<le> 52" by linarith
  have "(2::real) powr 0 < 2 powr (of_int (binade ?x) + 1)" using binade_normal(3)[OF n] one by simp
  then have "0 < real_of_int (binade ?x) + 1" by (rule powr_less_cancel) simp
  then have lo: "0 \<le> binade ?x" by linarith
  have q: "quantum ?x = 1 / 2 ^ nat (52 - binade ?x)"
  proof -
    have "real_of_int (binade ?x - 52) = - real (nat (52 - binade ?x))" using hi by simp
    then show ?thesis unfolding quantum_def
      by (simp only: powr_minus powr_realpow zero_less_numeral) (simp add: field_simps)
  qed
  have "?x = of_int (k * 2 ^ nat (52 - binade ?x)) * quantum ?x"
    by (simp add: q)
  moreover have "\<bar>?x\<bar> < 2 ^ 1024"
  proof -
    have "(2::real) powr 53 \<le> 2 powr 1024" by (intro powr_mono) simp_all
    then show ?thesis using lt by (simp add: powr_realpow[symmetric])
  qed
  ultimately show ?thesis by (rule rnd_exact)
qed

text \<open>In the normal range the relative error of rounding is at most \<open>2\<^sup>-\<^sup>5\<^sup>3\<close>.\<close>

lemma rnd_relative_error:
  assumes "2 powr (- 1022) \<le> \<bar>x\<bar>" "\<bar>x\<bar> \<le> 2 powr 1023"
  shows "\<exists>y. rnd x = Num y \<and> \<bar>y - x\<bar> \<le> 2 powr (- 53) * \<bar>x\<bar>"
proof -
  let ?q = "quantum x"
  let ?y = "of_int (round_half_even (x / ?q)) * ?q"
  have nz: "x \<noteq> 0" using assms(1) by auto
  have "?y - x = (of_int (round_half_even (x / ?q)) - x / ?q) * ?q"
    using quantum_pos[of x] by (simp add: field_simps)
  then have "\<bar>?y - x\<bar> = \<bar>of_int (round_half_even (x / ?q)) - x / ?q\<bar> * ?q"
    using quantum_pos[of x] by (simp add: abs_mult)
  also have "\<dots> \<le> 1 / 2 * ?q"
    using round_half_even_error[of "x / ?q"] quantum_pos[of x] by (intro mult_right_mono) simp_all
  also have "1 / 2 * ?q = 2 powr (- 53) * 2 powr of_int (binade x)"
  proof -
    have "real_of_int (binade x - 52) = - 52 + of_int (binade x)" by simp
    then have "?q = 2 powr (- 52) * 2 powr of_int (binade x)"
      unfolding quantum_def by (simp only: powr_add)
    moreover have "(2::real) powr (- 53) = 1 / 2 * 2 powr (- 52)"
      using powr_add[of "2::real" "- 1" "- 52"] by (simp add: powr_minus)
    ultimately show ?thesis by simp
  qed
  also have "\<dots> \<le> 2 powr (- 53) * \<bar>x\<bar>"
    using binade_normal(2)[OF assms(1)] by (intro mult_left_mono) simp_all
  finally have err: "\<bar>?y - x\<bar> \<le> 2 powr (- 53) * \<bar>x\<bar>" .
  have "(2::real) powr (- 53) \<le> 2 powr 0" by (intro powr_mono) simp_all
  then have u: "(2::real) powr (- 53) \<le> 1" by simp
  have half: "(2::real) powr (- 53) \<le> 1 / 2"
  proof -
    have "(2::real) powr (- 53) \<le> 2 powr (- 1)" by (intro powr_mono) simp_all
    then show ?thesis by (simp add: powr_minus)
  qed
  have "\<bar>?y\<bar> \<le> \<bar>x\<bar> + 2 powr (- 53) * \<bar>x\<bar>" using err by linarith
  also have "\<dots> \<le> \<bar>x\<bar> + 1 / 2 * \<bar>x\<bar>"
    using mult_right_mono[OF half, of "\<bar>x\<bar>"] by simp
  also have "\<dots> \<le> 3 / 2 * 2 powr 1023" using assms(2) by simp
  also have "\<dots> < 2 ^ 1024"
  proof -
    have "(2::real) ^ 1024 = 2 * 2 powr 1023"
      using powr_realpow[of "2::real" 1023] by simp
    then show ?thesis by simp
  qed
  finally have "\<not> 2 ^ 1024 \<le> \<bar>?y\<bar>" by simp
  then have "rnd x = Num ?y" using nz by (simp add: rnd_def Let_def)
  with err show ?thesis by blast
qed




lemma rnd_relative_error_power:
  assumes "1 / 2 ^ 1022 \<le> \<bar>x\<bar>" "\<bar>x\<bar> \<le> 2 ^ 1023"
  shows "\<exists>y. rnd x = Num y \<and> \<bar>y - x\<bar> \<le> \<bar>x\<bar> / 2 ^ 53"
proof -
  have a: "(2::real) powr (- 1022) = 1 / 2 ^ 1022"
    using powr_realpow[of "2::real" 1022] by (simp only: powr_minus divide_inverse) simp
  have b: "(2::real) powr 1023 = 2 ^ 1023" using powr_realpow[of "2::real" 1023] by simp
  have c: "(2::real) powr (- 53) = 1 / 2 ^ 53"
    using powr_realpow[of "2::real" 53] by (simp only: powr_minus divide_inverse) simp
  have "2 powr (- 1022) \<le> \<bar>x\<bar>" "\<bar>x\<bar> \<le> 2 powr 1023"
    using assms by (simp_all only: a b)
  from rnd_relative_error[OF this] obtain y where
    "rnd x = Num y" "\<bar>y - x\<bar> \<le> 2 powr (- 53) * \<bar>x\<bar>" by blast
  then have "rnd x = Num y \<and> \<bar>y - x\<bar> \<le> \<bar>x\<bar> / 2 ^ 53"
    by (simp only: c) simp
  then show ?thesis by blast
qed

text \<open>The quotient of a positive double by the rounded square of its rounded square root.\<close>

lemma self_quotient_near_one:
  assumes "1 / 2 ^ 1000 \<le> s" "s \<le> 2 ^ 1000"
  shows "\<exists>n p r. rnd (sqrt s) = Num n \<and> 0 < n \<and> rnd (n * n) = Num p \<and> 0 < p \<and>
           rnd (s / p) = Num r \<and> \<bar>r - 1\<bar> \<le> 1 / 2 ^ 50"
proof -
  define u :: real where "u = 1 / 2 ^ 53"
  have u: "0 < u" "u \<le> 1 / 2" by (simp_all add: u_def)
  have spos: "0 < s"
  proof -
    have "(0::real) < 1 / 2 ^ 1000" by simp
    with assms(1) show ?thesis by linarith
  qed
  have rlo: "1 / 2 ^ 500 \<le> sqrt s"
  proof -
    have "sqrt (1 / 2 ^ 1000) \<le> sqrt s" using assms(1) by (simp only: real_sqrt_le_iff)
    moreover have "sqrt (1 / 2 ^ 1000) = 1 / 2 ^ 500"
      by (rule real_sqrt_unique) (simp_all add: power_divide)
    ultimately show ?thesis by (simp only:)
  qed
  have rhi: "sqrt s \<le> 2 ^ 500"
  proof -
    have "sqrt s \<le> sqrt (2 ^ 1000)" using assms(2) by (simp only: real_sqrt_le_iff)
    moreover have "sqrt (2 ^ 1000) = (2 ^ 500 :: real)"
      by (rule real_sqrt_unique) simp_all
    ultimately show ?thesis by (simp only:)
  qed
  have rpos: "0 < sqrt s" using spos by simp
  have "1 / 2 ^ 1022 \<le> \<bar>sqrt s\<bar>" "\<bar>sqrt s\<bar> \<le> 2 ^ 1023"
  proof -
    have "(1 / 2 ^ 1022 :: real) \<le> 1 / 2 ^ 500" by simp
    with rlo rpos show "1 / 2 ^ 1022 \<le> \<bar>sqrt s\<bar>" by linarith
    have "(2 ^ 500 :: real) \<le> 2 ^ 1023" by simp
    with rhi rpos show "\<bar>sqrt s\<bar> \<le> 2 ^ 1023" by linarith
  qed
  from rnd_relative_error_power[OF this] obtain n where
    n: "rnd (sqrt s) = Num n" "\<bar>n - sqrt s\<bar> \<le> u * sqrt s"
    using rpos by (auto simp: u_def)
  have nlo: "(1 - u) * sqrt s \<le> n" and nhi: "n \<le> (1 + u) * sqrt s"
    using n(2) by (simp_all add: algebra_simps abs_le_iff)
  have npos: "0 < n"
  proof -
    have "0 < (1 - u) * sqrt s" using u rpos by simp
    with nlo show ?thesis by linarith
  qed
  have sq: "sqrt s * sqrt s = s" using spos by simp
  have n2lo: "(1 - u) * (1 - u) * s \<le> n * n"
  proof -
    have "((1 - u) * sqrt s) * ((1 - u) * sqrt s) \<le> n * n"
      using nlo u rpos npos by (intro mult_mono) simp_all
    then show ?thesis using sq by (simp add: algebra_simps)
  qed
  have n2hi: "n * n \<le> (1 + u) * (1 + u) * s"
  proof -
    have "n * n \<le> ((1 + u) * sqrt s) * ((1 + u) * sqrt s)"
      using nhi npos by (intro mult_mono) simp_all
    then show ?thesis using sq by (simp add: algebra_simps)
  qed
  have n2pos: "0 < n * n" using npos by simp
  have "1 / 2 ^ 1022 \<le> \<bar>n * n\<bar>" "\<bar>n * n\<bar> \<le> 2 ^ 1023"
  proof -
    have "(1 / 4) * s \<le> (1 - u) * (1 - u) * s"
    proof -
      have "(1 / 2) * (1 / 2) \<le> (1 - u) * (1 - u)" using u by (intro mult_mono) simp_all
      from mult_right_mono[OF this, of s] spos show ?thesis by simp
    qed
    moreover have "(1 / 2 ^ 1022 :: real) \<le> (1 / 4) * (1 / 2 ^ 1000)" by simp
    moreover have "(1 / 4) * (1 / 2 ^ 1000) \<le> (1 / 4) * s" using assms(1) by simp
    ultimately show "1 / 2 ^ 1022 \<le> \<bar>n * n\<bar>" using n2lo n2pos by linarith
    have "(1 + u) * (1 + u) * s \<le> 4 * s"
    proof -
      have "(1 + u) * (1 + u) \<le> 2 * 2" using u by (intro mult_mono) simp_all
      from mult_right_mono[OF this, of s] spos show ?thesis by simp
    qed
    moreover have "4 * s \<le> 4 * 2 ^ 1000" using assms(2) by simp
    moreover have "(4 * 2 ^ 1000 :: real) \<le> 2 ^ 1023" by simp
    ultimately show "\<bar>n * n\<bar> \<le> 2 ^ 1023" using n2hi n2pos by linarith
  qed
  from rnd_relative_error_power[OF this] obtain p where
    p: "rnd (n * n) = Num p" "\<bar>p - n * n\<bar> \<le> u * (n * n)"
    using n2pos by (auto simp: u_def)
  have plo: "(1 - u) * (n * n) \<le> p" and phi: "p \<le> (1 + u) * (n * n)"
    using p(2) by (simp_all add: algebra_simps abs_le_iff)
  define lo where "lo = (1 - u) * ((1 - u) * (1 - u))"
  define hi where "hi = (1 + u) * ((1 + u) * (1 + u))"
  have lopos: "0 < lo" using u by (simp add: lo_def)
  have hipos: "0 < hi" using u by (simp add: hi_def)
  have ps_lo: "lo * s \<le> p"
  proof -
    have "(1 - u) * ((1 - u) * (1 - u) * s) \<le> (1 - u) * (n * n)"
      using n2lo u by (intro mult_left_mono) simp_all
    with plo show ?thesis by (simp add: lo_def algebra_simps)
  qed
  have ps_hi: "p \<le> hi * s"
  proof -
    have "(1 + u) * (n * n) \<le> (1 + u) * ((1 + u) * (1 + u) * s)"
      using n2hi u by (intro mult_left_mono) simp_all
    with phi show ?thesis by (simp add: hi_def algebra_simps)
  qed
  have ppos: "0 < p"
  proof -
    have "0 < lo * s" using lopos spos by simp
    with ps_lo show ?thesis by linarith
  qed
  define t where "t = s / p"
  have tpos: "0 < t" using spos ppos by (simp add: t_def)
  have thi: "t \<le> 1 / lo"
  proof -
    have "s \<le> (1 / lo) * p"
      using ps_lo lopos by (simp add: field_simps)
    then show ?thesis using ppos by (simp add: t_def field_simps)
  qed
  have tlo: "1 / hi \<le> t"
  proof -
    have "(1 / hi) * p \<le> s"
      using ps_hi hipos by (simp add: field_simps)
    then show ?thesis using ppos by (simp add: t_def field_simps)
  qed
  have lo8: "1 / 8 \<le> lo" 
  proof -
    have "(1 / 2) * ((1 / 2) * (1 / 2)) \<le> lo"
      unfolding lo_def using u by (intro mult_mono) simp_all
    then show ?thesis by simp
  qed
  have hi8: "hi \<le> 8"
  proof -
    have "hi \<le> 2 * (2 * 2)"
      unfolding hi_def using u by (intro mult_mono) simp_all
    then show ?thesis by simp
  qed
  have "1 / 2 ^ 1022 \<le> \<bar>t\<bar>" "\<bar>t\<bar> \<le> 2 ^ 1023"
  proof -
    have "1 / 8 \<le> 1 / hi" using hi8 hipos by (simp add: field_simps)
    moreover have "(1 / 2 ^ 1022 :: real) \<le> 1 / 8" by simp
    ultimately show "1 / 2 ^ 1022 \<le> \<bar>t\<bar>" using tlo tpos by linarith
    have "1 / lo \<le> 8" using lo8 lopos by (simp add: field_simps)
    moreover have "(8 :: real) \<le> 2 ^ 1023" by simp
    ultimately show "\<bar>t\<bar> \<le> 2 ^ 1023" using thi tpos by linarith
  qed
  from rnd_relative_error_power[OF this] obtain r where
    r: "rnd t = Num r" "\<bar>r - t\<bar> \<le> u * t"
    using tpos by (auto simp: u_def)
  have r_hi: "r \<le> (1 + u) * (1 / lo)"
  proof -
    have "r \<le> (1 + u) * t" using r(2) by (simp add: algebra_simps abs_le_iff)
    moreover have "(1 + u) * t \<le> (1 + u) * (1 / lo)"
      using thi u by (intro mult_left_mono) simp_all
    ultimately show ?thesis by linarith
  qed
  have r_lo: "(1 - u) * (1 / hi) \<le> r"
  proof -
    have "(1 - u) * t \<le> r" using r(2) by (simp add: algebra_simps abs_le_iff)
    moreover have "(1 - u) * (1 / hi) \<le> (1 - u) * t"
      using tlo u by (intro mult_left_mono) simp_all
    ultimately show ?thesis by linarith
  qed
  have c1: "(1 + u) * (1 / lo) \<le> 1 + 1 / 2 ^ 50"
    unfolding lo_def u_def by (simp add: field_simps)
  have c2: "1 - 1 / 2 ^ 50 \<le> (1 - u) * (1 / hi)"
    unfolding hi_def u_def by (simp add: field_simps)
  have "r \<le> 1 + 1 / 2 ^ 50" using r_hi c1 by (rule order_trans)
  moreover have "1 - 1 / 2 ^ 50 \<le> r" using c2 r_lo by (rule order_trans)
  ultimately have "\<bar>r - 1\<bar> \<le> 1 / 2 ^ 50" by linarith
  with n(1) npos p(1) ppos r(1) show ?thesis unfolding t_def by blast
qed


lemma rnd_underflow_power: "\<bar>x\<bar> \<le> 1 / 2 ^ 1075 \<Longrightarrow> rnd x = Num 0"
proof -
  have "(2::real) powr (- 1075) = 1 / 2 ^ 1075"
    using powr_realpow[of "2::real" 1075] by (simp only: powr_minus divide_inverse) simp
  then show "\<bar>x\<bar> \<le> 1 / 2 ^ 1075 \<Longrightarrow> rnd x = Num 0"
    using rnd_underflow[of x] by (simp only:)
qed

lemma rnd_small [simp]:
  "rnd 0 = Num 0" "rnd 1 = Num 1" "rnd 2 = Num 2" "rnd 4 = Num 4"
  using rnd_of_int[of 0] rnd_of_int[of 1] rnd_of_int[of 2] rnd_of_int[of 4] by simp_all

text \<open>Powers of two in the range of the exponents are doubles, and a result of magnitude
  \<open>2\<^sup>1\<^sup>0\<^sup>2\<^sup>5\<close> or more overflows.\<close>

lemma binade_power:
  assumes "- 1022 \<le> e"
  shows "binade (2 powr of_int e) = e"
proof -
  have "log 2 \<bar>2 powr real_of_int e\<bar> = of_int e" by simp
  then show ?thesis using assms by (simp add: binade_def)
qed

lemma rnd_power_of_two:
  assumes "- 1022 \<le> e" "e < 1024"
  shows "rnd (2 powr of_int e) = Num (2 powr of_int e)"
proof -
  let ?x = "(2::real) powr of_int e"
  have q: "quantum ?x = 2 powr of_int (e - 52)"
    by (simp add: quantum_def binade_power[OF assms(1)])
  have "real_of_int e = 52 + real_of_int (e - 52)" by simp
  then have "?x = 2 powr 52 * 2 powr of_int (e - 52)"
    by (simp only: powr_add)
  moreover have "(2::real) powr 52 = of_int (2 ^ 52)"
    using powr_realpow[of "2::real" 52] by simp
  ultimately have "?x = of_int (2 ^ 52) * 2 powr of_int (e - 52)" by (simp only:)
  then have d: "?x = of_int (2 ^ 52) * quantum ?x" unfolding q .
  have "?x < 2 powr 1024" using assms(2) by (intro powr_less_mono) simp_all
  moreover have "(2::real) powr 1024 = 2 ^ 1024" using powr_realpow[of "2::real" 1024] by simp
  ultimately have "\<bar>?x\<bar> < 2 ^ 1024" by simp
  with d show ?thesis by (rule rnd_exact)
qed

lemma rnd_power_600: "rnd (1 / 2 ^ 600) = Num (1 / 2 ^ 600)"
proof -
  have "(2::real) powr (- 600) = 1 / 2 ^ 600"
    using powr_realpow[of "2::real" 600] by (simp only: powr_minus divide_inverse) simp
  moreover have "real_of_int (- 600) = - 600" by simp
  ultimately show ?thesis using rnd_power_of_two[of "- 600"] by (simp only:)
qed

lemma rnd_power_600_pos: "rnd (2 ^ 600) = Num (2 ^ 600)"
proof -
  have "(2::real) powr of_int 600 = 2 ^ 600"
    using powr_realpow[of "2::real" 600] by simp
  then show ?thesis using rnd_power_of_two[of 600] by simp
qed

lemma rnd_overflow:
  assumes "2 ^ 1025 \<le> \<bar>x\<bar>"
  shows "rnd x = (if 0 < x then PosInf else NegInf)"
proof -
  let ?q = "quantum x"
  let ?y = "of_int (round_half_even (x / ?q)) * ?q"
  have big: "(2::real) powr (- 1022) \<le> 2 ^ 1025"
  proof -
    have "(2::real) powr (- 1022) \<le> 2 powr 0" by (intro powr_mono) simp_all
    moreover have "(1::real) \<le> 2 ^ 1025" by simp
    ultimately show ?thesis by simp
  qed
  then have n: "2 powr (- 1022) \<le> \<bar>x\<bar>" using assms by linarith
  have nz: "x \<noteq> 0" using n by auto
  have "?y - x = (of_int (round_half_even (x / ?q)) - x / ?q) * ?q"
    using quantum_pos[of x] by (simp add: field_simps)
  then have "\<bar>?y - x\<bar> = \<bar>of_int (round_half_even (x / ?q)) - x / ?q\<bar> * ?q"
    using quantum_pos[of x] by (simp add: abs_mult)
  also have "\<dots> \<le> 1 / 2 * ?q"
    using round_half_even_error[of "x / ?q"] quantum_pos[of x] by (intro mult_right_mono) simp_all
  also have "?q \<le> 2 powr of_int (binade x)"
    unfolding quantum_def by (intro powr_mono) simp_all
  also have "\<dots> \<le> \<bar>x\<bar>" by (rule binade_normal(2)[OF n])
  finally have "\<bar>?y - x\<bar> \<le> 1 / 2 * \<bar>x\<bar>" by simp
  then have "1 / 2 * \<bar>x\<bar> \<le> \<bar>?y\<bar>" by linarith
  moreover have "(2::real) ^ 1024 \<le> 1 / 2 * \<bar>x\<bar>" using assms by simp
  ultimately have "2 ^ 1024 \<le> \<bar>?y\<bar>" by linarith
  then show ?thesis using nz by (simp add: rnd_def Let_def)
qed

subsection \<open>The values of the operations and the sign of a difference\<close>











section \<open>Properties of cosineSimilarity\<close>

lemma nmul_commute: "nmul a b = nmul b a"
  by (cases a; cases b) (auto simp: mult.commute)

lemma ndiv_zero_divisor: "ndiv a (Num 0) \<noteq> Num y"
  by (cases a) auto

lemma cosine_fold:
  assumes "n \<le> length vecA" "n \<le> length vecB"
  shows "foldl (\<lambda>(dotProduct, normA, normB) i.
              (nadd dotProduct (nmul (vecA ! i) (vecB ! i)),
               nadd normA (nmul (vecA ! i) (vecA ! i)),
               nadd normB (nmul (vecB ! i) (vecB ! i)))) (d, a, b) [0..<n]
         = (foldl (\<lambda>acc (x, y). nadd acc (nmul x y)) d (zip (take n vecA) (take n vecB)),
            foldl (\<lambda>acc x. nadd acc (nmul x x)) a (take n vecA),
            foldl (\<lambda>acc x. nadd acc (nmul x x)) b (take n vecB))"
  using assms
proof (induction n)
  case 0
  then show ?case by simp
next
  case (Suc n)
  then have l: "n < length vecA" "n < length vecB" by simp_all
  have z: "zip (take (Suc n) vecA) (take (Suc n) vecB)
           = zip (take n vecA) (take n vecB) @ [(vecA ! n, vecB ! n)]"
    using l by (simp add: take_Suc_conv_app_nth)
  show ?case
    using Suc.IH l by (simp add: z) (simp add: take_Suc_conv_app_nth)
qed

lemma cosine_sums_same_length:
  assumes "length vecA = length vecB"
  shows "cosine_sums vecA vecB = (dot_product vecA vecB, sum_squares vecA, sum_squares vecB)"
  using cosine_fold[of "length vecA" vecA vecB "Num 0" "Num 0" "Num 0"] assms
  by (simp add: cosine_sums_def dot_product_def sum_squares_def)

lemma cosineSimilarity_same_length:
  assumes "length vecA = length vecB"
  shows "cosineSimilarity vecA vecB =
     (if vec_norm vecA = Num 0 \<or> vec_norm vecB = Num 0 then Inr (Num 0)
      else Inr (ndiv (dot_product vecA vecB) (nmul (vec_norm vecA) (vec_norm vecB))))"
  using assms by (simp add: cosineSimilarity_def cosine_sums_same_length vec_norm_def Let_def)

lemma dot_product_commute: "dot_product a b = dot_product b a"
proof -
  have "foldl (\<lambda>acc (x, y). nadd acc (nmul x y)) d (zip a b)
        = foldl (\<lambda>acc (x, y). nadd acc (nmul x y)) d (zip b a)" for d
    by (induction a b arbitrary: d rule: list_induct2') (simp_all add: nmul_commute)
  then show ?thesis by (simp add: dot_product_def)
qed

lemma dot_product_self: "dot_product a a = sum_squares a"
proof -
  have "foldl (\<lambda>acc (x, y). nadd acc (nmul x y)) d (zip a a)
        = foldl (\<lambda>acc x. nadd acc (nmul x x)) d a" for d
    by (induction a arbitrary: d) simp_all
  then show ?thesis by (simp add: dot_product_def sum_squares_def)
qed

lemma sum_squares_zero_vector:
  assumes "\<forall>x\<in>set v. x = Num 0"
  shows "sum_squares v = Num 0"
proof -
  have "foldl (\<lambda>acc x. nadd acc (nmul x x)) (Num 0) v = Num 0"
    using assms by (induction v) (simp_all add: rnd_def)
  then show ?thesis by (simp add: sum_squares_def)
qed

lemma vec_norm_zero_vector: "\<forall>x\<in>set v. x = Num 0 \<Longrightarrow> vec_norm v = Num 0"
  by (simp add: vec_norm_def sum_squares_zero_vector rnd_def)

lemma cosineSimilarity_commute:
  "length a = length b \<Longrightarrow> cosineSimilarity a b = cosineSimilarity b a"
  by (auto simp: cosineSimilarity_same_length dot_product_commute nmul_commute)

text \<open>The quotient of line 314 when a norm is 0: its divisor is 0 or NaN, and its value
  is an infinity or NaN.\<close>

lemma unguarded_quotient:
  assumes "vec_norm a = Num 0 \<or> vec_norm b = Num 0"
  shows "ndiv d (nmul (vec_norm a) (vec_norm b)) \<noteq> Num y"
proof -
  have "nmul (vec_norm a) (vec_norm b) = Num 0 \<or> nmul (vec_norm a) (vec_norm b) = NaN"
    using assms by (cases "vec_norm a"; cases "vec_norm b") (auto simp: rnd_def)
  then show ?thesis
    by (cases d) (auto split: if_splits)
qed


lemma cosineSimilarity_unit:
  "cosineSimilarity [Num 1, Num 0] [Num 1, Num 0] = Inr (Num 1)"
  "cosineSimilarity [Num 1, Num 0] [Num 0, Num 1] = Inr (Num 0)"
  "cosineSimilarity [Num 1, Num 0] [Num 2, Num 0] = Inr (Num 1)"
  by (simp_all add: cosineSimilarity_same_length vec_norm_def sum_squares_def dot_product_def)

lemma sum_squares_3_4: "sum_squares [Num 3, Num 4] = Num 25"
  using rnd_of_int[of 9] rnd_of_int[of 16] rnd_of_int[of 25]
  by (simp add: sum_squares_def)

lemma vec_norm_zeros: "vec_norm (replicate n (Num 0)) = Num 0"
  by (rule vec_norm_zero_vector) simp

text \<open>
  Claim C10. For vectors of different lengths \<^verbatim>\<open>cosineSimilarity\<close> throws the error
  "Vectors must have the same length", whatever the components are: the dimensions are
  checked when a similarity is computed.
\<close>

theorem cosineSimilarity_length_mismatch:
  "length vecA \<noteq> length vecB \<Longrightarrow>
   cosineSimilarity vecA vecB = Inl (Error ''Vectors must have the same length'')"
  by (simp add: cosineSimilarity_def)

theorem cosineSimilarity_length_mismatch_witness:
  "length [Num 1, Num 2] \<noteq> length [Num 1] \<and>
   cosineSimilarity [Num 1, Num 2] [Num 1] = Inl (Error ''Vectors must have the same length'')"
  using cosineSimilarity_length_mismatch [of "[Num 1, Num 2]" "[Num 1]"] by simp

text \<open>
  Claim C6, as stated: whenever one of the two vectors has norm 0 the result is 0 and
  nothing is thrown. It fails for a zero vector and a vector of another length: the
  length check comes first and throws.
\<close>

theorem cosineSimilarity_zero_vector_counterexample:
  "vec_norm [Num 0] = Num 0 \<and>
   cosineSimilarity [Num 0] [Num 1, Num 2] = Inl (Error ''Vectors must have the same length'')"
  by (simp add: vec_norm_def sum_squares_def cosineSimilarity_def)

text \<open>
  Claim C6, amended: for two vectors of the same length of which one has norm 0 (the
  square root that line 307 or 308 computes is 0), \<^verbatim>\<open>cosineSimilarity\<close> returns 0 and
  does not throw. The 0 is the value of the guard of line 310 and not of the quotient
  of line 314: the sums of the loop are the dot product and the two sums of squares, the
  divisor of that quotient would be 0 or NaN, and the quotient itself an infinity or NaN,
  never a finite number. In particular the zero vector has norm 0, and its similarity to
  any vector of its length is 0.
\<close>

theorem cosineSimilarity_zero_norm:
  "(length vecA = length vecB \<and> (vec_norm vecA = Num 0 \<or> vec_norm vecB = Num 0) \<longrightarrow>
      cosineSimilarity vecA vecB = Inr (Num 0) \<and>
      cosine_sums vecA vecB = (dot_product vecA vecB, sum_squares vecA, sum_squares vecB) \<and>
      (nmul (vec_norm vecA) (vec_norm vecB) = Num 0 \<or>
       nmul (vec_norm vecA) (vec_norm vecB) = NaN) \<and>
      (\<forall>y. ndiv (dot_product vecA vecB) (nmul (vec_norm vecA) (vec_norm vecB)) \<noteq> Num y)) \<and>
   vec_norm (replicate n (Num 0)) = Num 0 \<and>
   (length vecB = n \<longrightarrow> cosineSimilarity (replicate n (Num 0)) vecB = Inr (Num 0))"
proof (intro conjI impI allI)
  assume h: "length vecA = length vecB \<and> (vec_norm vecA = Num 0 \<or> vec_norm vecB = Num 0)"
  then show "cosineSimilarity vecA vecB = Inr (Num 0)"
    by (simp add: cosineSimilarity_same_length)
  from h show "cosine_sums vecA vecB = (dot_product vecA vecB, sum_squares vecA, sum_squares vecB)"
    by (simp add: cosine_sums_same_length)
  from h show "nmul (vec_norm vecA) (vec_norm vecB) = Num 0 \<or>
       nmul (vec_norm vecA) (vec_norm vecB) = NaN"
    by (cases "vec_norm vecA"; cases "vec_norm vecB") (auto simp: rnd_def)
  fix y
  from h show "ndiv (dot_product vecA vecB) (nmul (vec_norm vecA) (vec_norm vecB)) \<noteq> Num y"
    by (intro unguarded_quotient) simp
next
  show "vec_norm (replicate n (Num 0)) = Num 0" by (rule vec_norm_zeros)
next
  assume "length vecB = n"
  then show "cosineSimilarity (replicate n (Num 0)) vecB = Inr (Num 0)"
    by (simp add: cosineSimilarity_same_length vec_norm_zeros)
qed

theorem cosineSimilarity_zero_norm_witness:
  "length [Num 0, Num 0] = length [Num 3, Num 4] \<and>
   (vec_norm [Num 0, Num 0] = Num 0 \<or> vec_norm [Num 3, Num 4] = Num 0) \<and>
   cosineSimilarity [Num 0, Num 0] [Num 3, Num 4] = Inr (Num 0) \<and>
   nmul (vec_norm [Num 0, Num 0]) (vec_norm [Num 3, Num 4]) = Num 0 \<and>
   ndiv (dot_product [Num 0, Num 0] [Num 3, Num 4])
        (nmul (vec_norm [Num 0, Num 0]) (vec_norm [Num 3, Num 4])) = NaN \<and>
   length [Num 3, Num 4] = 2 \<and>
   cosineSimilarity (replicate 2 (Num 0)) [Num 3, Num 4] = Inr (Num 0)"
proof -
  have z: "vec_norm [Num 0, Num 0] = Num 0"
    by (simp add: vec_norm_def sum_squares_def)
  have n: "vec_norm [Num 3, Num 4] = Num 5"
  proof -
    have "sqrt 25 = sqrt (5 * 5)" by simp
    then have "sqrt 25 = 5" by (simp only: real_sqrt_mult_self) simp
    then show ?thesis using rnd_of_int[of 5] by (simp add: vec_norm_def sum_squares_3_4)
  qed
  have d: "dot_product [Num 0, Num 0] [Num 3, Num 4] = Num 0"
    by (simp add: dot_product_def)
  from cosineSimilarity_zero_norm [of "[Num 0, Num 0]" "[Num 3, Num 4]" 2]
  show ?thesis using z by (simp add: n d)
qed

text \<open>
  Claim C9, as stated: every vector that is not the zero vector has similarity 1, within
  the tolerance of floating-point arithmetic, with itself. The square of the double
  \<open>2\<^sup>-\<^sup>6\<^sup>0\<^sup>0\<close> underflows to 0, so the vector with this component and a 0 has the sum of
  squares 0 and the norm 0, and its similarity with itself is 0. The square of the double
  \<open>2\<^sup>6\<^sup>0\<^sup>0\<close> overflows, and the similarity of the vector with this component and a 0 with
  itself is NaN.
\<close>

theorem cosineSimilarity_self_underflow_counterexample:
  "rnd (1 / 2 ^ 600) = Num (1 / 2 ^ 600) \<and> Num (1 / 2 ^ 600) \<noteq> Num 0 \<and>
   sum_squares [Num (1 / 2 ^ 600), Num 0] = Num 0 \<and>
   cosineSimilarity [Num (1 / 2 ^ 600), Num 0] [Num (1 / 2 ^ 600), Num 0] = Inr (Num 0) \<and>
   rnd (2 ^ 600) = Num (2 ^ 600) \<and>
   sum_squares [Num (2 ^ 600), Num 0] = PosInf \<and>
   cosineSimilarity [Num (2 ^ 600), Num 0] [Num (2 ^ 600), Num 0] = Inr NaN"
proof -
  have "sum_squares [Num (1 / 2 ^ 600), Num 0] = Num 0"
    by (simp add: sum_squares_def rnd_underflow_power)
  moreover have
    "cosineSimilarity [Num (1 / 2 ^ 600), Num 0] [Num (1 / 2 ^ 600), Num 0] = Inr (Num 0)"
    by (simp add: cosineSimilarity_same_length vec_norm_def sum_squares_def rnd_underflow_power)
  moreover have "sum_squares [Num (2 ^ 600), Num 0] = PosInf"
    by (simp add: sum_squares_def rnd_overflow)
  moreover have "cosineSimilarity [Num (2 ^ 600), Num 0] [Num (2 ^ 600), Num 0] = Inr NaN"
    by (simp add: cosineSimilarity_same_length vec_norm_def sum_squares_def dot_product_def
          rnd_overflow)
  ultimately show ?thesis
    using rnd_power_600 rnd_power_600_pos by simp
qed

text \<open>
  Claim C9, amended: for every vector whose sum of squares, as the loop accumulates it
  (for a vector and itself the three sums of the loop are this one value), is a finite
  value between \<open>2\<^sup>-\<^sup>1\<^sup>0\<^sup>0\<^sup>0\<close> and \<open>2\<^sup>1\<^sup>0\<^sup>0\<^sup>0\<close>, the similarity of the vector with itself is a
  finite number within \<open>2\<^sup>-\<^sup>5\<^sup>0\<close> of 1; and for every pair of vectors of equal length
  \<open>cosineSimilarity a b\<close> and \<open>cosineSimilarity b a\<close> are the same value.
\<close>

theorem cosineSimilarity_self_and_symmetric:
  "cosine_sums a a = (sum_squares a, sum_squares a, sum_squares a) \<and>
   (sum_squares a = Num s \<and> 1 / 2 ^ 1000 \<le> s \<and> s \<le> 2 ^ 1000 \<longrightarrow>
      (\<exists>r. cosineSimilarity a a = Inr (Num r) \<and> \<bar>r - 1\<bar> \<le> 1 / 2 ^ 50)) \<and>
   (length a = length b \<longrightarrow> cosineSimilarity a b = cosineSimilarity b a)"
proof (intro conjI impI)
  show "cosine_sums a a = (sum_squares a, sum_squares a, sum_squares a)"
    by (simp add: cosine_sums_same_length dot_product_self)
next
  assume h: "sum_squares a = Num s \<and> 1 / 2 ^ 1000 \<le> s \<and> s \<le> 2 ^ 1000"
  then obtain n p r where q: "rnd (sqrt s) = Num n" "0 < n" "rnd (n * n) = Num p" "0 < p"
      "rnd (s / p) = Num r" "\<bar>r - 1\<bar> \<le> 1 / 2 ^ 50"
    using self_quotient_near_one[of s] by blast
  have spos: "\<not> s < 0"
  proof -
    have "(0::real) < 1 / 2 ^ 1000" by simp
    with h show ?thesis by linarith
  qed
  have "vec_norm a = Num n" using h q(1) spos by (simp add: vec_norm_def)
  then have "cosineSimilarity a a = Inr (Num r)"
    using q h by (simp add: cosineSimilarity_same_length dot_product_self)
  with q(6) show "\<exists>r. cosineSimilarity a a = Inr (Num r) \<and> \<bar>r - 1\<bar> \<le> 1 / 2 ^ 50" by blast
next
  assume "length a = length b"
  then show "cosineSimilarity a b = cosineSimilarity b a" by (rule cosineSimilarity_commute)
qed

theorem cosineSimilarity_self_and_symmetric_witness:
  "sum_squares [Num 3, Num 4] = Num 25 \<and> (1 / 2 ^ 1000 \<le> (25 :: real)) \<and>
   ((25 :: real) \<le> 2 ^ 1000) \<and>
   (\<exists>r. cosineSimilarity [Num 3, Num 4] [Num 3, Num 4] = Inr (Num r) \<and>
        \<bar>r - 1\<bar> \<le> 1 / 2 ^ 50) \<and>
   length [Num 1, Num 0] = length [Num 0, Num 1] \<and>
   cosineSimilarity [Num 1, Num 0] [Num 0, Num 1] = cosineSimilarity [Num 0, Num 1] [Num 1, Num 0]"
proof -
  have lo: "1 / 2 ^ 1000 \<le> (25 :: real)"
  proof -
    have "(1 / 2 ^ 1000 :: real) \<le> 1" by simp
    then show ?thesis by linarith
  qed
  have hi: "(25 :: real) \<le> 2 ^ 1000"
  proof -
    have "(2 :: real) ^ 5 \<le> 2 ^ 1000" by (rule power_increasing) simp_all
    then show ?thesis by simp
  qed
  from cosineSimilarity_self_and_symmetric [of "[Num 3, Num 4]" 25 "[Num 3, Num 4]"]
       cosineSimilarity_self_and_symmetric [of "[Num 1, Num 0]" 0 "[Num 0, Num 1]"]
  show ?thesis using lo hi sum_squares_3_4 by simp
qed

section \<open>Properties of splitIntoChunks\<close>

lemma lastIndexOf_bounds: "- 1 \<le> lastIndexOf s c \<and> lastIndexOf s c < int (length s)"
proof (cases "dropWhile (\<lambda>x. x \<noteq> c) (rev s)")
  case Nil
  show ?thesis unfolding lastIndexOf_def Nil by simp
next
  case (Cons a before)
  have "length (dropWhile (\<lambda>x. x \<noteq> c) (rev s)) \<le> length (rev s)"
    by (rule length_dropWhile_le)
  then show ?thesis unfolding lastIndexOf_def Cons by simp
qed

lemma lastIndexOf_absent: "c \<notin> set s \<Longrightarrow> lastIndexOf s c = - 1"
proof -
  assume "c \<notin> set s"
  then have h: "dropWhile (\<lambda>x. x \<noteq> c) (rev s) = []"
    by (auto simp: dropWhile_eq_Nil_conv)
  show ?thesis unfolding lastIndexOf_def h by simp
qed

lemma lastIndexOf_last_occurrence:
  "c \<notin> set ys \<Longrightarrow> lastIndexOf (xs @ c # ys) c = int (length xs)"
proof -
  assume "c \<notin> set ys"
  then have "dropWhile (\<lambda>x. x \<noteq> c) (rev ys @ c # rev xs) = c # rev xs"
    by (subst dropWhile_append2) auto
  then have h: "dropWhile (\<lambda>x. x \<noteq> c) (rev (xs @ c # ys)) = c # rev xs"
    by simp
  show ?thesis unfolding lastIndexOf_def h by simp
qed

lemma trim_unchanged:
  assumes "s \<noteq> []" "\<not> is_space (hd s)" "\<not> is_space (last s)"
  shows "trim s = s"
proof -
  have 1: "dropWhile is_space s = s" using assms by (cases s) simp_all
  have "rev s = last s # rev (butlast s)"
    using assms(1) by (metis append_butlast_last_id rev.simps(2) rev_append rev_rev_ident append_Cons append_Nil rev_singleton_conv)
  moreover have "dropWhile is_space (last s # rev (butlast s)) = last s # rev (butlast s)"
    using assms(3) by simp
  ultimately have 2: "dropWhile is_space (rev s) = rev s" by (simp only:)
  show ?thesis unfolding trim_def 1 2 by simp
qed

lemma not_space_letter: "\<not> is_space CHR ''a''" "\<not> is_space CHR ''.''"
  by (simp_all add: is_space_def)

subsection \<open>No progress when the overlap is not smaller than the chunk size\<close>

lemma length_js_slice_window:
  assumes "0 \<le> chunkSize" "start \<le> 0"
  shows "int (length (js_slice text start (start + chunkSize))) \<le> chunkSize"
  using assms by (auto simp: js_slice_def Let_def min_def max_def)

lemma chunk_step_no_progress:
  assumes "0 \<le> chunkSize" "chunkSize \<le> overlap" "chunkSize < int (length text)" "start \<le> 0"
  shows "fst (chunk_step text chunkSize overlap start) \<le> 0"
proof -
  let ?chunk = "js_slice text start (start + chunkSize)"
  have e: "min (start + chunkSize) (int (length text)) = start + chunkSize"
    using assms by simp
  have l: "int (length ?chunk) \<le> chunkSize"
    using assms by (simp add: length_js_slice_window)
  have "lastIndexOf ?chunk CHR ''.'' < chunkSize" "lastIndexOf ?chunk CHR 0x0A < chunkSize"
    using lastIndexOf_bounds[of ?chunk] l by (smt (verit))+
  then show ?thesis
    using assms by (auto simp: chunk_step_def e Let_def max_def)
qed

lemma split_loop_no_progress:
  assumes "0 \<le> chunkSize" "chunkSize \<le> overlap" "chunkSize < int (length text)" "start \<le> 0"
  shows "split_loop text chunkSize overlap start chunks = None"
proof (rule ccontr)
  assume "split_loop text chunkSize overlap start chunks \<noteq> None"
  then obtain y where y: "split_loop text chunkSize overlap start chunks = Some y" by auto
  have "\<not> (0 \<le> chunkSize \<and> chunkSize \<le> overlap \<and> chunkSize < int (length text) \<and> start \<le> 0)"
  proof (rule split_loop.raw_induct[where P = "\<lambda>t cs ov st acc r.
            \<not> (0 \<le> cs \<and> cs \<le> ov \<and> cs < int (length t) \<and> st \<le> 0)", OF _ y])
    fix loop :: "string \<Rightarrow> int \<Rightarrow> int \<Rightarrow> int \<Rightarrow> string list \<Rightarrow> string list option"
    fix t cs ov st acc r
    assume IH: "\<And>t cs ov st acc r. loop t cs ov st acc = Some r \<Longrightarrow>
                  \<not> (0 \<le> cs \<and> cs \<le> ov \<and> cs < int (length t) \<and> st \<le> 0)"
    assume body: "(if st < int (length t)
                   then case chunk_step t cs ov st of
                     (start', piece) \<Rightarrow>
                       loop t cs ov start' (if 50 < length (trim piece) then acc @ [trim piece] else acc)
                   else Some acc) = Some r"
    show "\<not> (0 \<le> cs \<and> cs \<le> ov \<and> cs < int (length t) \<and> st \<le> 0)"
    proof
      assume a: "0 \<le> cs \<and> cs \<le> ov \<and> cs < int (length t) \<and> st \<le> 0"
      then have lt: "st < int (length t)" by simp
      obtain start' piece where c: "chunk_step t cs ov st = (start', piece)"
        by (cases "chunk_step t cs ov st")
      have "start' \<le> 0" using chunk_step_no_progress[of cs ov t st] a c by simp
      moreover have "loop t cs ov start'
               (if 50 < length (trim piece) then acc @ [trim piece] else acc) = Some r"
        using body lt c by simp
      ultimately show False using IH a by blast
    qed
  qed
  with assms show False by simp
qed

lemma split_loop_single_pass:
  assumes "int (length text) \<le> chunkSize"
  shows "split_loop text chunkSize overlap 0 [] =
           Some (if 50 < length (trim text) then [trim text] else [])"
proof (cases "text = []")
  case True
  then show ?thesis by (subst split_loop.simps) (simp add: trim_def)
next
  case False
  have "chunk_step text chunkSize overlap 0 = (int (length text), text)"
    using assms by (simp add: chunk_step_def js_slice_def Let_def min_def)
  moreover have "split_loop text chunkSize overlap (int (length text)) acc = Some acc" for acc
    by (subst split_loop.simps) simp
  ultimately show ?thesis using False by (subst split_loop.simps) simp
qed

text \<open>
  Claim C7, as stated: with \<open>overlap \<ge> chunkSize\<close> the function fails fast with a
  configuration error instead of looping. The function has no such check. On a text of 20
  characters with size 10 and overlap 10 the cursor stays at 0 and the loop never returns;
  on a text that fits into one chunk the same configuration returns normally.
\<close>

theorem splitIntoChunks_no_guard_counterexample:
  "splitIntoChunks ''aaaaaaaaaaaaaaaaaaaa'' 10 10 = None \<and>
   splitIntoChunks ''aaaaa'' 10 10 = Some []"
  unfolding splitIntoChunks_def
  by (simp add: split_loop_no_progress split_loop_single_pass trim_def not_space_letter)

text \<open>
  Claim C7, amended: for a configuration with \<open>0 \<le> chunkSize \<le> overlap\<close> the function
  does not check its parameters and throws nothing: on a text of at most \<open>chunkSize\<close>
  characters it returns after one pass (the trimmed text if that is longer than 50
  characters, no chunk otherwise), and on every longer text the cursor never passes 0 and
  the loop does not terminate.
\<close>

theorem splitIntoChunks_overlap_not_below_size:
  "0 \<le> chunkSize \<Longrightarrow> chunkSize \<le> overlap \<Longrightarrow>
   splitIntoChunks text chunkSize overlap =
     (if int (length text) \<le> chunkSize
      then Some (if 50 < length (trim text) then [trim text] else [])
      else None)"
  unfolding splitIntoChunks_def
  by (simp add: split_loop_no_progress split_loop_single_pass)

theorem splitIntoChunks_overlap_not_below_size_witness:
  "(0::int) \<le> 10 \<and> (10::int) \<le> 10 \<and> splitIntoChunks ''aaaaaaaaaaaaaaaaaaaa'' 10 10 = None"
  using splitIntoChunks_overlap_not_below_size [of 10 10 "''aaaaaaaaaaaaaaaaaaaa''"] by simp

subsection \<open>Termination with the parameters of the service\<close>

lemma chunk_step_progress:
  assumes "overlap < chunkSize" "10 * overlap \<le> 7 * chunkSize + 10" "0 \<le> start"
    "start < int (length text)"
  shows "start < fst (chunk_step text chunkSize overlap start)"
  using assms by (auto simp: chunk_step_def Let_def min_def)

lemma split_loop_terminates:
  assumes "overlap < chunkSize" "10 * overlap \<le> 7 * chunkSize + 10" "0 \<le> start"
  shows "\<exists>r. split_loop text chunkSize overlap start chunks = Some r"
  using assms(3)
proof (induction "nat (int (length text) - start)" arbitrary: start chunks rule: less_induct)
  case less
  show ?case
  proof (cases "start < int (length text)")
    case False
    then show ?thesis by (subst split_loop.simps) simp
  next
    case True
    obtain start' piece where st: "chunk_step text chunkSize overlap start = (start', piece)"
      by (cases "chunk_step text chunkSize overlap start")
    have p: "start < start'"
      using chunk_step_progress[OF assms(1,2) less.prems True] st by simp
    then have "nat (int (length text) - start') < nat (int (length text) - start)"
      using True by simp
    moreover have "0 \<le> start'" using p less.prems by simp
    ultimately obtain r where "split_loop text chunkSize overlap start'
        (if 50 < length (trim piece) then chunks @ [trim piece] else chunks) = Some r"
      using less.hyps by blast
    then show ?thesis using True st by (subst split_loop.simps) simp
  qed
qed

lemma splitIntoChunks_service_terminates: "\<exists>chunks. splitIntoChunks text 1000 200 = Some chunks"
  unfolding splitIntoChunks_def by (rule split_loop_terminates) simp_all

subsection \<open>Concrete documents\<close>

lemma splitIntoChunks_short_doc: "splitIntoChunks short_doc 1000 200 = Some [short_doc]"
  unfolding splitIntoChunks_def
  by (simp add: split_loop_single_pass short_doc_def trim_unchanged not_space_letter)

lemma splitIntoChunks_long_doc:
  "splitIntoChunks long_doc 1000 200 = Some [replicate 1000 CHR ''a'', replicate 700 CHR ''a'']"
proof -
  have 0: "chunk_step long_doc 1000 200 0 = (800, replicate 1000 CHR ''a'')"
    by (simp add: chunk_step_def long_doc_def js_slice_def Let_def lastIndexOf_absent)
  have 1: "chunk_step long_doc 1000 200 800 = (1500, replicate 700 CHR ''a'')"
    by (simp add: chunk_step_def long_doc_def js_slice_def Let_def)
  have l: "length long_doc = 1500" by (simp add: long_doc_def)
  show ?thesis
    unfolding splitIntoChunks_def
    apply (subst split_loop.simps, simp add: l 0 trim_unchanged not_space_letter)
    apply (subst split_loop.simps, simp add: l 1 trim_unchanged not_space_letter)
    apply (subst split_loop.simps, simp add: l)
    done
qed

lemma chunk_step_sentence_doc:
  "chunk_step sentence_doc 1000 200 0 = (800, replicate 1000 CHR ''a'')"
  "chunk_step sentence_doc 1000 200 800 =
     (1600, replicate 900 CHR ''a'' @ CHR ''.'' # replicate 99 CHR ''a'')"
  "chunk_step sentence_doc 1000 200 1600 =
     (2000, replicate 100 CHR ''a'' @ CHR ''.'' # replicate 299 CHR ''a'')"
  by (simp_all add: chunk_step_def sentence_doc_def js_slice_def Let_def
        lastIndexOf_absent lastIndexOf_last_occurrence)

text \<open>
  Claim C4. In a pass with \<open>end < len(text)\<close> the chunker is to cut at the rightmost
  period or newline of the window when that lies beyond \<open>start + 0.7 * chunkSize\<close>. The
  code compares the position of the break inside the chunk with that bound, which is a
  position in the text. On the document of 2000 characters whose only period is at
  position 1700, with size 1000 and overlap 200, the second pass starts at 800; the period
  lies beyond \<open>800 + 700\<close>, but its position inside the chunk is 900, so the code cuts at
  1800 and moves the cursor to 1600: the second chunk does not end at the period.
\<close>

theorem splitIntoChunks_break_test_in_chunk_coordinates:
  "lastIndexOf (js_slice sentence_doc 800 1800) CHR ''.'' = 900 \<and>
   real_of_int (800 + 900) > real_of_int 800 + real_of_int 1000 * (7 / 10) \<and>
   chunk_step sentence_doc 1000 200 800 = (1600, js_slice sentence_doc 800 1800) \<and>
   chunk_step sentence_doc 1000 200 800 \<noteq> (1701 - 200, js_slice sentence_doc 800 1701) \<and>
   splitIntoChunks sentence_doc 1000 200 =
     Some [js_slice sentence_doc 0 1000, js_slice sentence_doc 800 1800,
           js_slice sentence_doc 1600 2000]"
proof -
  have s: "js_slice sentence_doc 0 1000 = replicate 1000 CHR ''a''"
    "js_slice sentence_doc 800 1800 = replicate 900 CHR ''a'' @ CHR ''.'' # replicate 99 CHR ''a''"
    "js_slice sentence_doc 1600 2000 = replicate 100 CHR ''a'' @ CHR ''.'' # replicate 299 CHR ''a''"
    by (simp_all add: sentence_doc_def js_slice_def Let_def)
  have l: "length sentence_doc = 2000" by (simp add: sentence_doc_def)
  have "splitIntoChunks sentence_doc 1000 200 =
     Some [replicate 1000 CHR ''a'', replicate 900 CHR ''a'' @ CHR ''.'' # replicate 99 CHR ''a'',
           replicate 100 CHR ''a'' @ CHR ''.'' # replicate 299 CHR ''a'']"
    unfolding splitIntoChunks_def
    apply (subst split_loop.simps, simp add: l chunk_step_sentence_doc trim_unchanged not_space_letter)
    apply (subst split_loop.simps, simp add: l chunk_step_sentence_doc trim_unchanged not_space_letter)
    apply (subst split_loop.simps, simp add: l chunk_step_sentence_doc trim_unchanged not_space_letter)
    apply (subst split_loop.simps, simp add: l)
    done
  then show ?thesis
    by (simp add: s chunk_step_sentence_doc lastIndexOf_last_occurrence)
qed


section \<open>Properties of the index build\<close>

lemma provider_run_length:
  "provider_run c chunks w = (vs, r, w') \<Longrightarrow>
   length vs \<le> length chunks \<and> (r = None) = (length vs = length chunks)"
proof (induction chunks arbitrary: w vs r w')
  case Nil
  then show ?case by auto
next
  case (Cons ch rest)
  show ?case
  proof (cases "embedContent c ch w")
    case (Pair res wa)
    show ?thesis
    proof (cases res)
      case (Inl e)
      with Cons.prems Pair show ?thesis by auto
    next
      case (Inr v)
      obtain vs' r' wb where run: "provider_run c rest wa = (vs', r', wb)"
        by (cases "provider_run c rest wa") auto
      with Cons.prems Pair Inr have "vs = v # vs'" "r = r'" by simp_all
      with Cons.IH[OF run] show ?thesis by simp
    qed
  qed
qed

text \<open>Up to the chunk that failed, a run is a run without failure.\<close>

lemma provider_run_prefix:
  "provider_run c chunks w = (vs, r, w') \<Longrightarrow>
   \<exists>w''. provider_run c (take (length vs) chunks) w = (vs, None, w'')"
proof (induction chunks arbitrary: w vs r w')
  case Nil
  then show ?case by auto
next
  case (Cons ch rest)
  show ?case
  proof (cases "embedContent c ch w")
    case (Pair res wa)
    show ?thesis
    proof (cases res)
      case (Inl e)
      with Cons.prems Pair show ?thesis by auto
    next
      case (Inr v)
      obtain vs' r' wb where run: "provider_run c rest wa = (vs', r', wb)"
        by (cases "provider_run c rest wa") auto
      with Cons.prems Pair Inr have vs: "vs = v # vs'" by simp
      from Cons.IH[OF run] obtain wc where
        "provider_run c (take (length vs') rest) wa = (vs', None, wc)" by blast
      with Pair Inr vs show ?thesis by simp
    qed
  qed
qed

lemma entries_from_Nil [simp]: "entries_from i chunks [] = []"
  by (cases chunks) simp_all

lemma length_entries_from: "length (entries_from i chunks vs) = min (length chunks) (length vs)"
  by (induction i chunks vs rule: entries_from.induct) simp_all

lemma entries_from_fields:
  "length vs \<le> length chunks \<Longrightarrow>
   map chunk (entries_from i chunks vs) = take (length vs) chunks \<and>
   map embedding (entries_from i chunks vs) = vs \<and>
   map index (entries_from i chunks vs) = [i..<i + length vs]"
proof (induction i chunks vs rule: entries_from.induct)
  case (1 i ch chunks v vs)
  then show ?case by (simp add: upt_conv_Cons del: upt_Suc)
qed simp_all

lemma stored_entries_fields:
  "length vs \<le> length chunks \<Longrightarrow>
   map chunk (stored_entries chunks vs) = take (length vs) chunks \<and>
   map embedding (stored_entries chunks vs) = vs \<and>
   map index (stored_entries chunks vs) = [0..<length vs]"
  using entries_from_fields[of vs chunks 0] by (simp add: stored_entries_def)

lemma length_stored_entries:
  "length (stored_entries chunks vs) = min (length chunks) (length vs)"
  by (simp add: stored_entries_def length_entries_from)

text \<open>The loop stores what the provider answers: with the handle of the model set, it
  appends the entries of the chunks answered before the first failure and ends as the run
  of the provider ends.\<close>

lemma embed_loop_run:
  assumes "embeddings s" "provider_run c chunks w = (vs, r, w')"
  shows "embed_loop c i chunks s w =
           (build_result r,
            s\<lparr>chunkEmbeddings := chunkEmbeddings s @ entries_from i chunks vs\<rparr>, w')"
  using assms
proof (induction chunks arbitrary: i s w vs r w')
  case Nil
  then show ?case by (auto simp: build_result_def)
next
  case (Cons ch rest)
  show ?case
  proof (cases "embedContent c ch w")
    case (Pair res wa)
    show ?thesis
    proof (cases res)
      case (Inl e)
      with Cons.prems Pair show ?thesis
        by (auto simp: getEmbedding_def build_result_def)
    next
      case (Inr v)
      obtain vs' r' wb where run: "provider_run c rest wa = (vs', r', wb)"
        by (cases "provider_run c rest wa") auto
      with Cons.prems Pair Inr have eq: "vs = v # vs'" "r = r'" "w' = wb" by simp_all
      let ?s1 = "s\<lparr>chunkEmbeddings :=
                     chunkEmbeddings s @ [\<lparr>chunk = ch, embedding = v, index = i\<rparr>]\<rparr>"
      have "embeddings ?s1" using Cons.prems(1) by simp
      from Cons.IH[OF this run, of "Suc i"] Cons.prems(1) Pair Inr eq
      show ?thesis by (simp add: getEmbedding_def)
    qed
  qed
qed

lemma embed_loop_no_handle:
  "\<not> embeddings s \<Longrightarrow>
   embed_loop c i chunks s w =
     (if chunks = [] then Inr () else Inl (TypeError ''Cannot read properties of null''), s, w)"
  by (cases chunks) (simp_all add: getEmbedding_def)

lemma generateChunkEmbeddings_run:
  assumes "embeddings s" "provider_run c (documentChunks s) w = (vs, r, w')"
  shows "generateChunkEmbeddings c s w =
           (build_result r, s\<lparr>chunkEmbeddings := stored_entries (documentChunks s) vs\<rparr>, w')"
  using embed_loop_run[of "s\<lparr>chunkEmbeddings := []\<rparr>" c "documentChunks s" w vs r w' 0] assms
  by (simp add: generateChunkEmbeddings_def stored_entries_def)

lemma loadAndProcessPDF_unreadable:
  "extractText c w = (Inl e, wa) \<Longrightarrow> loadAndProcessPDF c s w = Some (Inl e, s, wa)"
  by (simp add: loadAndProcessPDF_def)

lemma loadAndProcessPDF_run:
  assumes "extractText c w = (Inr fullText, wa)"
    and "splitIntoChunks fullText 1000 200 = Some chunks"
    and "embeddings s" and "provider_run c chunks wa = (vs, r, wb)"
  shows "loadAndProcessPDF c s w =
           Some (build_result r,
                 s\<lparr>documentChunks := chunks, chunkEmbeddings := stored_entries chunks vs\<rparr>, wb)"
  using generateChunkEmbeddings_run[of "s\<lparr>documentChunks := chunks\<rparr>" c wa vs r wb] assms
  by (simp add: loadAndProcessPDF_def)

lemma loadAndProcessPDF_no_handle:
  assumes "extractText c w = (Inr fullText, wa)"
    and "splitIntoChunks fullText 1000 200 = Some chunks"
    and "\<not> embeddings s"
  shows "loadAndProcessPDF c s w =
           Some (if chunks = [] then Inr () else Inl (TypeError ''Cannot read properties of null''),
                 s\<lparr>documentChunks := chunks, chunkEmbeddings := []\<rparr>, wa)"
  using assms
  by (simp add: loadAndProcessPDF_def generateChunkEmbeddings_def embed_loop_no_handle)

lemma initialize_run:
  assumes "extractText c w = (Inr fullText, wa)"
    and "splitIntoChunks fullText 1000 200 = Some chunks"
    and "provider_run c chunks wa = (vs, r, wb)"
  shows "initialize c s w =
           Some (build_result r,
                 s\<lparr>embeddings := True, documentChunks := chunks,
                   chunkEmbeddings := stored_entries chunks vs,
                   isInitialized := (r = None \<or> isInitialized s)\<rparr>, wb)"
  using loadAndProcessPDF_run[of c w fullText wa chunks "s\<lparr>embeddings := True\<rparr>" vs r wb] assms
  by (cases r) (simp_all add: initialize_def build_result_def)

lemma refreshVectorStore_run:
  assumes "extractText c w = (Inr fullText, wa)"
    and "splitIntoChunks fullText 1000 200 = Some chunks"
    and "embeddings s" and "provider_run c chunks wa = (vs, r, wb)"
  shows "refreshVectorStore c s w =
           Some (build_result r,
                 s\<lparr>isInitialized := (r = None), documentChunks := chunks,
                   chunkEmbeddings := stored_entries chunks vs\<rparr>, wb)"
  using loadAndProcessPDF_run[of c w fullText wa chunks
          "s\<lparr>isInitialized := False, documentChunks := [], chunkEmbeddings := []\<rparr>" vs r wb] assms
  by (cases r) (simp_all add: refreshVectorStore_def build_result_def)

lemma refreshVectorStore_no_handle:
  assumes "extractText c w = (Inr fullText, wa)"
    and "splitIntoChunks fullText 1000 200 = Some chunks"
    and "\<not> embeddings s" and "chunks \<noteq> []"
  shows "refreshVectorStore c s w =
           Some (Inl (TypeError ''Cannot read properties of null''),
                 s\<lparr>isInitialized := False, documentChunks := chunks, chunkEmbeddings := []\<rparr>, wa)"
  using loadAndProcessPDF_no_handle[of c w fullText wa chunks
          "s\<lparr>isInitialized := False, documentChunks := [], chunkEmbeddings := []\<rparr>"] assms
  by (simp add: refreshVectorStore_def)

lemma refreshVectorStore_extraction_fails:
  "extractText c w = (Inl e, wa) \<Longrightarrow>
   refreshVectorStore c s w =
     Some (Inl e, s\<lparr>isInitialized := False, documentChunks := [], chunkEmbeddings := []\<rparr>, wa)"
  by (simp add: refreshVectorStore_def loadAndProcessPDF_def)

subsection \<open>The index after a build\<close>

lemma holds_first_chunks_fields [simp]:
  "holds_first_chunks c (s\<lparr>isInitialized := b\<rparr>) w = holds_first_chunks c s w"
  "holds_first_chunks c (s\<lparr>embeddings := b\<rparr>) w = holds_first_chunks c s w"
  by (simp_all add: holds_first_chunks_def)

lemma prefix_built_fields [simp]:
  "prefix_built c (s\<lparr>isInitialized := b\<rparr>) = prefix_built c s"
  "prefix_built c (s\<lparr>embeddings := b\<rparr>) = prefix_built c s"
  "fully_built c (s\<lparr>isInitialized := b\<rparr>) = fully_built c s"
  "fully_built c (s\<lparr>embeddings := b\<rparr>) = fully_built c s"
  by (simp_all add: prefix_built_def fully_built_def)

lemma fully_built_prefix: "fully_built c s \<Longrightarrow> prefix_built c s"
  by (simp add: fully_built_def)

lemma prefix_built_empty: "chunkEmbeddings s = [] \<Longrightarrow> prefix_built c s"
  by (simp add: prefix_built_def holds_first_chunks_def stored_entries_def)

lemma prefix_built_run:
  assumes "provider_run c chunks w = (vs, r, w')"
  shows "prefix_built c (s\<lparr>documentChunks := chunks, chunkEmbeddings := stored_entries chunks vs\<rparr>)"
proof -
  have len: "length vs \<le> length chunks" using provider_run_length[OF assms] by simp
  obtain w'' where "provider_run c (take (length vs) chunks) w = (vs, None, w'')"
    using provider_run_prefix[OF assms] by blast
  moreover have "min (length chunks) (length vs) = length vs" using len by simp
  ultimately have "holds_first_chunks c
      (s\<lparr>documentChunks := chunks, chunkEmbeddings := stored_entries chunks vs\<rparr>) w"
    by (simp add: holds_first_chunks_def length_stored_entries)
  then show ?thesis unfolding prefix_built_def by blast
qed

lemma loadAndProcessPDF_total: "\<exists>r s' w'. loadAndProcessPDF c s w = Some (r, s', w')"
proof (cases "extractText c w")
  case (Pair res wa)
  show ?thesis
  proof (cases res)
    case (Inl e)
    with Pair show ?thesis by (simp add: loadAndProcessPDF_def)
  next
    case (Inr fullText)
    obtain chunks where "splitIntoChunks fullText 1000 200 = Some chunks"
      using splitIntoChunks_service_terminates by blast
    with Pair Inr show ?thesis
      by (cases "generateChunkEmbeddings c (s\<lparr>documentChunks := chunks\<rparr>) wa")
         (simp add: loadAndProcessPDF_def)
  qed
qed

lemma loadAndProcessPDF_result:
  assumes "loadAndProcessPDF c s w = Some (r, s', w')"
  shows "embeddings s' = embeddings s \<and> isInitialized s' = isInitialized s \<and>
         (case extractText c w of
            (Inl e, wa) \<Rightarrow> r = Inl e \<and> s' = s \<and> w' = wa
          | (Inr fullText, wa) \<Rightarrow>
              splitIntoChunks fullText 1000 200 = Some (documentChunks s') \<and> prefix_built c s' \<and>
              (r = Inr () \<longrightarrow> fully_built c s') \<and>
              ((\<exists>e. r = Inl e) \<longrightarrow> length (chunkEmbeddings s') < length (documentChunks s')))"
proof (cases "extractText c w")
  case (Pair res wa)
  show ?thesis
  proof (cases res)
    case (Inl e)
    with Pair assms show ?thesis by (simp add: loadAndProcessPDF_def)
  next
    case (Inr fullText)
    obtain chunks where sp: "splitIntoChunks fullText 1000 200 = Some chunks"
      using splitIntoChunks_service_terminates by blast
    have x: "extractText c w = (Inr fullText, wa)" using Pair Inr by simp
    show ?thesis
    proof (cases "embeddings s")
      case True
      obtain vs r0 wb where run: "provider_run c chunks wa = (vs, r0, wb)"
        by (cases "provider_run c chunks wa") auto
      from loadAndProcessPDF_run[OF x sp True run] assms
      have res: "r = build_result r0" "w' = wb"
        "s' = s\<lparr>documentChunks := chunks, chunkEmbeddings := stored_entries chunks vs\<rparr>"
        by simp_all
      have p: "prefix_built c s'" unfolding res(3) using run by (rule prefix_built_run)
      have len: "length vs \<le> length chunks" "(r0 = None) = (length vs = length chunks)"
        using provider_run_length[OF run] by simp_all
      have l: "length (chunkEmbeddings s') = length vs"
        using len(1) by (simp add: res(3) length_stored_entries)
      have "r = Inr () \<longrightarrow> fully_built c s'"
        using p l len(2) by (auto simp: res(1,3) build_result_def fully_built_def split: option.splits)
      moreover have "(\<exists>e. r = Inl e) \<longrightarrow> length (chunkEmbeddings s') < length (documentChunks s')"
        using l len by (auto simp: res(1,3) build_result_def split: option.splits)
      ultimately show ?thesis using x sp p by (simp add: res(3))
    next
      case False
      from loadAndProcessPDF_no_handle[OF x sp False] assms
      have res: "r = (if chunks = [] then Inr ()
                     else Inl (TypeError ''Cannot read properties of null''))"
        "s' = s\<lparr>documentChunks := chunks, chunkEmbeddings := []\<rparr>"
        by simp_all
      have p: "prefix_built c s'" by (rule prefix_built_empty) (simp add: res(2))
      have "r = Inr () \<longrightarrow> fully_built c s'"
        using p by (auto simp: res fully_built_def split: if_splits)
      moreover have "(\<exists>e. r = Inl e) \<longrightarrow> length (chunkEmbeddings s') < length (documentChunks s')"
        by (auto simp: res split: if_splits)
      ultimately show ?thesis using x sp p by (simp add: res(2))
    qed
  qed
qed

lemma initialize_total: "\<exists>r s' w'. initialize c s w = Some (r, s', w')"
proof -
  obtain r s' w' where "loadAndProcessPDF c (s\<lparr>embeddings := True\<rparr>) w = Some (r, s', w')"
    using loadAndProcessPDF_total[of c "s\<lparr>embeddings := True\<rparr>" w] by auto
  then show ?thesis by (cases r) (simp_all add: initialize_def)
qed

lemma refreshVectorStore_total: "\<exists>r s' w'. refreshVectorStore c s w = Some (r, s', w')"
proof -
  obtain r s' w' where
    "loadAndProcessPDF c (s\<lparr>isInitialized := False, documentChunks := [], chunkEmbeddings := []\<rparr>) w
       = Some (r, s', w')"
    using loadAndProcessPDF_total[of c
            "s\<lparr>isInitialized := False, documentChunks := [], chunkEmbeddings := []\<rparr>" w]
    by auto
  then show ?thesis by (cases r) (simp_all add: refreshVectorStore_def)
qed

lemma initialize_cases:
  assumes "initialize c s w = Some (r, s', w')"
  obtains (failed) e where "r = Inl e"
      "loadAndProcessPDF c (s\<lparr>embeddings := True\<rparr>) w = Some (Inl e, s', w')"
    | (built) s1 where "r = Inr ()" "s' = s1\<lparr>isInitialized := True\<rparr>"
      "loadAndProcessPDF c (s\<lparr>embeddings := True\<rparr>) w = Some (Inr (), s1, w')"
  using assms
  by (auto simp: initialize_def split: option.splits prod.splits sum.splits)

lemma refreshVectorStore_cases:
  assumes "refreshVectorStore c s w = Some (r, s', w')"
  obtains (failed) e where "r = Inl e"
      "loadAndProcessPDF c (s\<lparr>isInitialized := False, documentChunks := [], chunkEmbeddings := []\<rparr>) w
         = Some (Inl e, s', w')"
    | (built) s1 where "r = Inr ()" "s' = s1\<lparr>isInitialized := True\<rparr>"
      "loadAndProcessPDF c (s\<lparr>isInitialized := False, documentChunks := [], chunkEmbeddings := []\<rparr>) w
         = Some (Inr (), s1, w')"
  using assms
  by (auto simp: refreshVectorStore_def split: option.splits prod.splits sum.splits)

text \<open>What a build leaves behind.\<close>

lemma initialize_result:
  assumes "initialize c s w = Some (r, s', w')"
  shows "(prefix_built c s \<longrightarrow> prefix_built c s') \<and>
         (r = Inr () \<longrightarrow> fully_built c s' \<and> isInitialized s') \<and>
         ((\<exists>e. r = Inl e) \<longrightarrow> isInitialized s' = isInitialized s)"
  using assms
proof (cases rule: initialize_cases)
  case (failed e)
  from loadAndProcessPDF_result[OF failed(2)] failed(1) show ?thesis
    by (cases "extractText c w") (auto split: sum.splits)
next
  case (built s1)
  from loadAndProcessPDF_result[OF built(3)] built(1,2) show ?thesis
    by (cases "extractText c w") (auto split: sum.splits simp: fully_built_prefix)
qed

lemma refreshVectorStore_result:
  assumes "refreshVectorStore c s w = Some (r, s', w')"
  shows "prefix_built c s' \<and>
         (r = Inr () \<longrightarrow> fully_built c s' \<and> isInitialized s') \<and>
         ((\<exists>e. r = Inl e) \<longrightarrow> \<not> isInitialized s')"
  using assms
proof (cases rule: refreshVectorStore_cases)
  case (failed e)
  from loadAndProcessPDF_result[OF failed(2)] failed(1) show ?thesis
    by (cases "extractText c w") (auto split: sum.splits simp: prefix_built_empty)
next
  case (built s1)
  from loadAndProcessPDF_result[OF built(3)] built(1,2) show ?thesis
    by (cases "extractText c w") (auto split: sum.splits simp: fully_built_prefix)
qed

subsection \<open>Concrete runs\<close>

lemma initialize_short_doc:
  "0 < readable \<Longrightarrow>
   initialize (scripted short_doc readable failing) init_state \<lparr>reads = 0, embeds = 0\<rparr> =
     (if failing 0
      then Some (Inl (ProviderError ''quota exceeded''),
                 \<lparr>embeddings = True, documentChunks = [short_doc], chunkEmbeddings = [],
                  isInitialized = False\<rparr>, \<lparr>reads = 1, embeds = 1\<rparr>)
      else Some (Inr (), short_index, \<lparr>reads = 1, embeds = 1\<rparr>))"
  by (simp add: initialize_def loadAndProcessPDF_def scripted_def splitIntoChunks_short_doc
        generateChunkEmbeddings_def getEmbedding_def init_state_def short_index_def)

lemma initialize_unreadable:
  "\<not> reads w < readable \<Longrightarrow>
   initialize (scripted doc readable failing) s w =
     Some (Inl (IOError ''ENOENT''), s\<lparr>embeddings := True\<rparr>, w\<lparr>reads := reads w + 1\<rparr>)"
  by (simp add: initialize_def loadAndProcessPDF_def scripted_def)

lemma refreshVectorStore_unreadable:
  "\<not> reads w < readable \<Longrightarrow>
   refreshVectorStore (scripted doc readable failing) s w =
     Some (Inl (IOError ''ENOENT''),
           s\<lparr>isInitialized := False, documentChunks := [], chunkEmbeddings := []\<rparr>,
           w\<lparr>reads := reads w + 1\<rparr>)"
  by (simp add: refreshVectorStore_def loadAndProcessPDF_def scripted_def)

lemma stored_entries_one:
  "stored_entries [x, y] [v] = [\<lparr>chunk = x, embedding = v, index = 0\<rparr>]"
  by (simp add: stored_entries_def)

text \<open>
  Claim C1, as stated: when the rebuild of \<^verbatim>\<open>refreshVectorStore\<close> fails, the previous
  generation stays in place and queries still serve it. The function empties
  \<open>documentChunks\<close> and \<open>chunkEmbeddings\<close> and clears \<open>isInitialized\<close> before it rebuilds.
  After a successful \<^verbatim>\<open>initialize\<close> on a readable one-chunk document, a refresh that
  cannot read the document leaves the emptied state, and the next query returns the empty
  string.
\<close>

theorem refreshVectorStore_failure_counterexample:
  "initialize (scripted short_doc 1 never_fails) init_state \<lparr>reads = 0, embeds = 0\<rparr> =
     Some (Inr (), short_index, \<lparr>reads = 1, embeds = 1\<rparr>) \<and>
   documentChunks short_index = [short_doc] \<and>
   chunkEmbeddings short_index =
     [\<lparr>chunk = short_doc, embedding = [Num 1, Num 0], index = 0\<rparr>] \<and>
   isInitialized short_index \<and>
   refreshVectorStore (scripted short_doc 1 never_fails) short_index \<lparr>reads = 1, embeds = 1\<rparr> =
     Some (Inl (IOError ''ENOENT''), emptied_index, \<lparr>reads = 2, embeds = 1\<rparr>) \<and>
   documentChunks emptied_index = [] \<and>
   chunkEmbeddings emptied_index = [] \<and>
   searchRelevantContext (scripted short_doc 1 never_fails) ''password'' 3 emptied_index
       \<lparr>reads = 2, embeds = 1\<rparr> =
     Some (Inr '''', emptied_index, \<lparr>reads = 3, embeds = 1\<rparr>)"
  by (simp add: initialize_short_doc refreshVectorStore_unreadable initialize_unreadable
        searchRelevantContext_def searchRelevantContext_try_def never_fails_def
        short_index_def emptied_index_def)

text \<open>
  Claim C1, amended: \<^verbatim>\<open>refreshVectorStore\<close> always returns, and whenever its rebuild fails
  the error is rethrown to the caller and the previous generation is gone.
  \<^item> If the document cannot be extracted, the refresh throws the error of the extraction
    and leaves \<open>isInitialized\<close> false and \<open>documentChunks\<close> and \<open>chunkEmbeddings\<close> empty.
  \<^item> If the provider fails at some chunk of the new text, the refresh throws the error of
    the provider and leaves \<open>isInitialized\<close> false, \<open>documentChunks\<close> with the chunks of
    the new text, and in \<open>chunkEmbeddings\<close> exactly the entries of the chunks before the
    failing one: chunk number \<open>k\<close> with the vector that the provider returned for it and
    the index \<open>k\<close>.
  \<^item> If the handle of the embedding model was never created and the new text has a
    chunk, the refresh throws a type error and leaves the chunks without any embedding.
  \<^item> After a refresh that throws, \<open>isInitialized\<close> is false, and either there are no chunks
    and no embeddings or there are fewer embeddings than chunks.
\<close>

theorem refreshVectorStore_failure_discards_generation:
  "(\<exists>r s' w'. refreshVectorStore c s w = Some (r, s', w')) \<and>
   (extractText c w = (Inl e, wa) \<longrightarrow>
      refreshVectorStore c s w =
        Some (Inl e, s\<lparr>isInitialized := False, documentChunks := [], chunkEmbeddings := []\<rparr>,
              wa)) \<and>
   (extractText c w = (Inr fullText, wa) \<and> splitIntoChunks fullText 1000 200 = Some chunks \<and>
    embeddings s \<and> provider_run c chunks wa = (vs, Some e, wb) \<longrightarrow>
      refreshVectorStore c s w =
        Some (Inl e, s\<lparr>isInitialized := False, documentChunks := chunks,
                        chunkEmbeddings := stored_entries chunks vs\<rparr>, wb) \<and>
      length vs < length chunks \<and>
      map chunk (stored_entries chunks vs) = take (length vs) chunks \<and>
      map embedding (stored_entries chunks vs) = vs \<and>
      map index (stored_entries chunks vs) = [0..<length vs]) \<and>
   (extractText c w = (Inr fullText, wa) \<and> splitIntoChunks fullText 1000 200 = Some chunks \<and>
    \<not> embeddings s \<and> chunks \<noteq> [] \<longrightarrow>
      refreshVectorStore c s w =
        Some (Inl (TypeError ''Cannot read properties of null''),
              s\<lparr>isInitialized := False, documentChunks := chunks, chunkEmbeddings := []\<rparr>, wa)) \<and>
   (\<forall>e' s' w'. refreshVectorStore c s w = Some (Inl e', s', w') \<longrightarrow>
      \<not> isInitialized s' \<and>
      (documentChunks s' = [] \<and> chunkEmbeddings s' = [] \<or>
       length (chunkEmbeddings s') < length (documentChunks s')))"
proof (intro conjI allI impI)
  show "\<exists>r s' w'. refreshVectorStore c s w = Some (r, s', w')"
    by (rule refreshVectorStore_total)
next
  assume "extractText c w = (Inl e, wa)"
  then show "refreshVectorStore c s w =
        Some (Inl e, s\<lparr>isInitialized := False, documentChunks := [], chunkEmbeddings := []\<rparr>,
              wa)"
    by (rule refreshVectorStore_extraction_fails)
next
  assume h: "extractText c w = (Inr fullText, wa) \<and>
    splitIntoChunks fullText 1000 200 = Some chunks \<and>
    embeddings s \<and> provider_run c chunks wa = (vs, Some e, wb)"
  then have x: "extractText c w = (Inr fullText, wa)"
    and sp: "splitIntoChunks fullText 1000 200 = Some chunks"
    and hd: "embeddings s" and run: "provider_run c chunks wa = (vs, Some e, wb)"
    by simp_all
  from refreshVectorStore_run[OF x sp hd run]
  show "refreshVectorStore c s w =
        Some (Inl e, s\<lparr>isInitialized := False, documentChunks := chunks,
                        chunkEmbeddings := stored_entries chunks vs\<rparr>, wb)"
    by (simp add: build_result_def)
  from provider_run_length[OF run] show len: "length vs < length chunks" by simp
  then have "length vs \<le> length chunks" by simp
  from stored_entries_fields[OF this]
  show "map chunk (stored_entries chunks vs) = take (length vs) chunks"
    "map embedding (stored_entries chunks vs) = vs"
    "map index (stored_entries chunks vs) = [0..<length vs]"
    by simp_all
next
  assume h: "extractText c w = (Inr fullText, wa) \<and>
    splitIntoChunks fullText 1000 200 = Some chunks \<and> \<not> embeddings s \<and> chunks \<noteq> []"
  then show "refreshVectorStore c s w =
        Some (Inl (TypeError ''Cannot read properties of null''),
              s\<lparr>isInitialized := False, documentChunks := chunks, chunkEmbeddings := []\<rparr>, wa)"
    using refreshVectorStore_no_handle[of c w fullText wa chunks s] by simp
next
  fix e' s' w'
  assume a: "refreshVectorStore c s w = Some (Inl e', s', w')"
  then show "\<not> isInitialized s'"
    using refreshVectorStore_result[OF a] by simp
  from a show "documentChunks s' = [] \<and> chunkEmbeddings s' = [] \<or>
       length (chunkEmbeddings s') < length (documentChunks s')"
  proof (cases rule: refreshVectorStore_cases)
    case (failed e1)
    from loadAndProcessPDF_result[OF failed(2)] failed(1) show ?thesis
      by (cases "extractText c w") (auto split: sum.splits)
  next
    case (built s1)
    then show ?thesis by simp
  qed
qed

theorem refreshVectorStore_failure_discards_generation_witness:
  "extractText (scripted short_doc 1 never_fails) \<lparr>reads = 1, embeds = 1\<rparr> =
     (Inl (IOError ''ENOENT''), \<lparr>reads = 2, embeds = 1\<rparr>) \<and>
   refreshVectorStore (scripted short_doc 1 never_fails) short_index \<lparr>reads = 1, embeds = 1\<rparr> =
     Some (Inl (IOError ''ENOENT''), emptied_index, \<lparr>reads = 2, embeds = 1\<rparr>) \<and>
   extractText (scripted long_doc 5 (fails_at 2)) \<lparr>reads = 1, embeds = 1\<rparr> =
     (Inr long_doc, \<lparr>reads = 2, embeds = 1\<rparr>) \<and>
   splitIntoChunks long_doc 1000 200 =
     Some [replicate 1000 CHR ''a'', replicate 700 CHR ''a''] \<and>
   embeddings short_index \<and>
   provider_run (scripted long_doc 5 (fails_at 2))
       [replicate 1000 CHR ''a'', replicate 700 CHR ''a''] \<lparr>reads = 2, embeds = 1\<rparr> =
     ([Num 1, Num 0] # [], Some (ProviderError ''quota exceeded''), \<lparr>reads = 2, embeds = 3\<rparr>) \<and>
   refreshVectorStore (scripted long_doc 5 (fails_at 2)) short_index \<lparr>reads = 1, embeds = 1\<rparr> =
     Some (Inl (ProviderError ''quota exceeded''), partial_index False,
           \<lparr>reads = 2, embeds = 3\<rparr>) \<and>
   chunkEmbeddings (partial_index False) =
     [\<lparr>chunk = replicate 1000 CHR ''a'', embedding = [Num 1, Num 0], index = 0\<rparr>] \<and>
   extractText (scripted short_doc 1 never_fails) \<lparr>reads = 0, embeds = 0\<rparr> =
     (Inr short_doc, \<lparr>reads = 1, embeds = 0\<rparr>) \<and>
   splitIntoChunks short_doc 1000 200 = Some [short_doc] \<and>
   \<not> embeddings init_state \<and>
   refreshVectorStore (scripted short_doc 1 never_fails) init_state \<lparr>reads = 0, embeds = 0\<rparr> =
     Some (Inl (TypeError ''Cannot read properties of null''),
           \<lparr>embeddings = False, documentChunks = [short_doc], chunkEmbeddings = [],
            isInitialized = False\<rparr>, \<lparr>reads = 1, embeds = 0\<rparr>)"
proof -
  have xa: "extractText (scripted short_doc 1 never_fails) \<lparr>reads = 1, embeds = 1\<rparr> =
     (Inl (IOError ''ENOENT''), \<lparr>reads = 2, embeds = 1\<rparr>)"
    by (simp add: scripted_def)
  have xb: "extractText (scripted long_doc 5 (fails_at 2)) \<lparr>reads = 1, embeds = 1\<rparr> =
     (Inr long_doc, \<lparr>reads = 2, embeds = 1\<rparr>)"
    by (simp add: scripted_def)
  have hb: "embeddings short_index" by (simp add: short_index_def)
  have rb: "provider_run (scripted long_doc 5 (fails_at 2))
       [replicate 1000 CHR ''a'', replicate 700 CHR ''a''] \<lparr>reads = 2, embeds = 1\<rparr> =
     ([Num 1, Num 0] # [], Some (ProviderError ''quota exceeded''), \<lparr>reads = 2, embeds = 3\<rparr>)"
    by (simp add: scripted_def fails_at_def)
  have xc: "extractText (scripted short_doc 1 never_fails) \<lparr>reads = 0, embeds = 0\<rparr> =
     (Inr short_doc, \<lparr>reads = 1, embeds = 0\<rparr>)"
    by (simp add: scripted_def)
  have hc: "\<not> embeddings init_state" by (simp add: init_state_def)
  have a: "refreshVectorStore (scripted short_doc 1 never_fails) short_index
             \<lparr>reads = 1, embeds = 1\<rparr> =
     Some (Inl (IOError ''ENOENT''), emptied_index, \<lparr>reads = 2, embeds = 1\<rparr>)"
    using refreshVectorStore_failure_discards_generation
            [where c = "scripted short_doc 1 never_fails" and s = short_index
               and w = "\<lparr>reads = 1, embeds = 1\<rparr>" and e = "IOError ''ENOENT''"
               and wa = "\<lparr>reads = 2, embeds = 1\<rparr>"] xa
    by (simp add: short_index_def emptied_index_def)
  have b: "refreshVectorStore (scripted long_doc 5 (fails_at 2)) short_index
             \<lparr>reads = 1, embeds = 1\<rparr> =
     Some (Inl (ProviderError ''quota exceeded''), partial_index False,
           \<lparr>reads = 2, embeds = 3\<rparr>)"
    using refreshVectorStore_failure_discards_generation
            [where c = "scripted long_doc 5 (fails_at 2)" and s = short_index
               and w = "\<lparr>reads = 1, embeds = 1\<rparr>" and fullText = long_doc
               and wa = "\<lparr>reads = 2, embeds = 1\<rparr>"
               and chunks = "[replicate 1000 CHR ''a'', replicate 700 CHR ''a'']"
               and vs = "[Num 1, Num 0] # []" and e = "ProviderError ''quota exceeded''"
               and wb = "\<lparr>reads = 2, embeds = 3\<rparr>"]
          xb splitIntoChunks_long_doc hb rb
    by (simp add: stored_entries_one short_index_def partial_index_def)
  have c: "refreshVectorStore (scripted short_doc 1 never_fails) init_state
             \<lparr>reads = 0, embeds = 0\<rparr> =
     Some (Inl (TypeError ''Cannot read properties of null''),
           \<lparr>embeddings = False, documentChunks = [short_doc], chunkEmbeddings = [],
            isInitialized = False\<rparr>, \<lparr>reads = 1, embeds = 0\<rparr>)"
    using refreshVectorStore_failure_discards_generation
            [where c = "scripted short_doc 1 never_fails" and s = init_state
               and w = "\<lparr>reads = 0, embeds = 0\<rparr>" and fullText = short_doc
               and wa = "\<lparr>reads = 1, embeds = 0\<rparr>" and chunks = "[short_doc]"]
          xc splitIntoChunks_short_doc hc
    by (simp add: init_state_def)
  show ?thesis
    using xa xb hb rb xc hc a b c splitIntoChunks_long_doc splitIntoChunks_short_doc
    by (simp add: partial_index_def)
qed

section \<open>Properties of the query entry points\<close>

lemma searchRelevantContext_try_total:
  "\<exists>r s' w'. searchRelevantContext_try c query k s w = Some (r, s', w')"
proof (cases "isInitialized s")
  case True
  then show ?thesis
    by (auto simp: searchRelevantContext_try_def split: prod.splits sum.splits)
next
  case False
  obtain r s1 w1 where "initialize c s w = Some (r, s1, w1)"
    using initialize_total[of c s w] by auto
  with False show ?thesis
    by (auto simp: searchRelevantContext_try_def split: prod.splits sum.splits)
qed

lemma searchRelevantContext_total:
  "\<exists>r s' w'. searchRelevantContext c query k s w = Some (Inr r, s', w')"
proof -
  obtain r s' w' where "searchRelevantContext_try c query k s w = Some (r, s', w')"
    using searchRelevantContext_try_total[of c query k s w] by auto
  then show ?thesis by (cases r) (simp_all add: searchRelevantContext_def)
qed

lemma searchRelevantContext_caught:
  "searchRelevantContext_try c query k s w = Some (Inl e, s', w') \<Longrightarrow>
   searchRelevantContext c query k s w = Some (Inr '''', s', w')"
  by (simp add: searchRelevantContext_def)

lemma searchRelevantContext_try_embedding_fails:
  "isInitialized s \<Longrightarrow> getEmbedding c s query w = (Inl e, w') \<Longrightarrow>
   searchRelevantContext_try c query k s w = Some (Inl e, s, w')"
  by (simp add: searchRelevantContext_try_def)

text \<open>
  Claim C2, as stated: when an embedding call fails during a query,
  \<^verbatim>\<open>searchRelevantContext\<close> raises. Its \<^verbatim>\<open>catch\<close> returns the empty string instead: on
  the built index, with a provider that fails at every call, the embedding of the query
  fails and the function returns \<open>''''\<close>.
\<close>

theorem searchRelevantContext_raises_counterexample:
  "getEmbedding (scripted short_doc 1 always_fails) short_index ''password''
       \<lparr>reads = 1, embeds = 1\<rparr> =
     (Inl (ProviderError ''quota exceeded''), \<lparr>reads = 1, embeds = 2\<rparr>) \<and>
   searchRelevantContext (scripted short_doc 1 always_fails) ''password'' 3 short_index
       \<lparr>reads = 1, embeds = 1\<rparr> =
     Some (Inr '''', short_index, \<lparr>reads = 1, embeds = 2\<rparr>)"
  by (simp add: searchRelevantContext_def searchRelevantContext_try_def getEmbedding_def
        scripted_def always_fails_def short_index_def)

text \<open>
  Claim C2, amended: \<^verbatim>\<open>searchRelevantContext\<close> always returns a string and never raises;
  whenever a step of its \<^verbatim>\<open>try\<close> block throws, in particular when the embedding of the
  query fails, it returns the empty string.
\<close>

theorem searchRelevantContext_returns_empty_on_failure:
  "(\<exists>r s' w'. searchRelevantContext c query k s w = Some (Inr r, s', w')) \<and>
   (\<forall>e s' w'. searchRelevantContext_try c query k s w = Some (Inl e, s', w') \<longrightarrow>
       searchRelevantContext c query k s w = Some (Inr '''', s', w')) \<and>
   (\<forall>e w'. isInitialized s \<and> getEmbedding c s query w = (Inl e, w') \<longrightarrow>
       searchRelevantContext c query k s w = Some (Inr '''', s, w'))"
  using searchRelevantContext_total[of c query k s w]
  by (auto simp: searchRelevantContext_caught searchRelevantContext_try_embedding_fails)

theorem searchRelevantContext_returns_empty_on_failure_witness:
  "isInitialized short_index \<and>
   getEmbedding (scripted short_doc 1 always_fails) short_index ''password''
       \<lparr>reads = 1, embeds = 1\<rparr> =
     (Inl (ProviderError ''quota exceeded''), \<lparr>reads = 1, embeds = 2\<rparr>) \<and>
   searchRelevantContext_try (scripted short_doc 1 always_fails) ''password'' 3 short_index
       \<lparr>reads = 1, embeds = 1\<rparr> =
     Some (Inl (ProviderError ''quota exceeded''), short_index, \<lparr>reads = 1, embeds = 2\<rparr>) \<and>
   searchRelevantContext (scripted short_doc 1 always_fails) ''password'' 3 short_index
       \<lparr>reads = 1, embeds = 1\<rparr> =
     Some (Inr '''', short_index, \<lparr>reads = 1, embeds = 2\<rparr>)"
proof -
  have i: "isInitialized short_index" by (simp add: short_index_def)
  have g: "getEmbedding (scripted short_doc 1 always_fails) short_index ''password''
       \<lparr>reads = 1, embeds = 1\<rparr> =
     (Inl (ProviderError ''quota exceeded''), \<lparr>reads = 1, embeds = 2\<rparr>)"
    by (simp add: getEmbedding_def scripted_def always_fails_def short_index_def)
  have t: "searchRelevantContext_try (scripted short_doc 1 always_fails) ''password'' 3 short_index
       \<lparr>reads = 1, embeds = 1\<rparr> =
     Some (Inl (ProviderError ''quota exceeded''), short_index, \<lparr>reads = 1, embeds = 2\<rparr>)"
    using i g by (simp add: searchRelevantContext_try_def)
  from searchRelevantContext_returns_empty_on_failure
         [of "scripted short_doc 1 always_fails" "''password''" 3 short_index
             "\<lparr>reads = 1, embeds = 1\<rparr>"]
  show ?thesis using i g t by blast
qed

lemma lazy_initialize_total:
  "\<exists>r s1 w1. (if \<not> isInitialized s then initialize c s w else Some (Inr (), s, w)) = Some (r, s1, w1)"
  using initialize_total[of c s w] by auto

lemma lazy_initialize_ready:
  assumes "(if \<not> isInitialized s then initialize c s w else Some (Inr (), s, w)) = Some (Inr u, s1, w1)"
  shows "isInitialized s1"
proof (cases "isInitialized s")
  case True
  with assms show ?thesis by simp
next
  case False
  with assms have "initialize c s w = Some (Inr (), s1, w1)" by simp
  from initialize_result[OF this] show ?thesis by simp
qed

lemma getEmbedding_provider_down:
  assumes "\<forall>text w0. \<exists>e. fst (embedContent c text w0) = Inl e"
  shows "\<exists>e w'. getEmbedding c s query w = (Inl e, w')"
proof (cases "embeddings s")
  case True
  from assms obtain e where "fst (embedContent c query w) = Inl e" by blast
  with True show ?thesis
    by (cases "embedContent c query w") (simp add: getEmbedding_def)
next
  case False
  then show ?thesis by (simp add: getEmbedding_def)
qed

lemma getRelevantSections_total:
  "\<exists>r s' w'. getRelevantSections c userMessage maxChunks s w = Some (Inr r, s', w')"
proof -
  obtain r s1 w1 where l:
    "(if \<not> isInitialized s then initialize c s w else Some (Inr (), s, w)) = Some (r, s1, w1)"
    using lazy_initialize_total[of s c w] by auto
  show ?thesis
  proof (cases r)
    case (Inl e)
    with l show ?thesis
      by (simp add: getRelevantSections_def getRelevantSections_try_def)
  next
    case (Inr u)
    obtain r2 s2 w2 where
      "searchRelevantContext c (extractSearchTerms userMessage) maxChunks s1 w1 = Some (Inr r2, s2, w2)"
      using searchRelevantContext_total[of c "extractSearchTerms userMessage" maxChunks s1 w1] by auto
    with l Inr show ?thesis
      by (simp add: getRelevantSections_def getRelevantSections_try_def)
  qed
qed

lemma getRelevantSections_internal_failure:
  assumes "internal_failure c userMessage maxChunks s w"
  shows "\<exists>s' w'. getRelevantSections c userMessage maxChunks s w = Some (Inr [], s', w')"
proof -
  obtain r s1 w1 where l:
    "(if \<not> isInitialized s then initialize c s w else Some (Inr (), s, w)) = Some (r, s1, w1)"
    using lazy_initialize_total[of s c w] by auto
  show ?thesis
  proof (cases r)
    case (Inl e)
    with l show ?thesis
      by (simp add: getRelevantSections_def getRelevantSections_try_def)
  next
    case (Inr u)
    obtain r2 s2 w2 where t:
      "searchRelevantContext_try c (extractSearchTerms userMessage) maxChunks s1 w1 = Some (r2, s2, w2)"
      using searchRelevantContext_try_total[of c "extractSearchTerms userMessage" maxChunks s1 w1]
      by auto
    show ?thesis
    proof (cases r2)
      case (Inl e)
      with t have "searchRelevantContext c (extractSearchTerms userMessage) maxChunks s1 w1
                 = Some (Inr [], s2, w2)"
        by (simp add: searchRelevantContext_def)
      with l Inr show ?thesis
        by (simp add: getRelevantSections_def getRelevantSections_try_def)
    next
      case (Inr x)
      with assms l t \<open>r = Inr u\<close> show ?thesis by (simp add: internal_failure_def)
    qed
  qed
qed

lemma internal_failure_provider_down:
  assumes "\<forall>text w0. \<exists>e. fst (embedContent c text w0) = Inl e"
  shows "internal_failure c userMessage maxChunks s w"
proof -
  obtain r s1 w1 where l:
    "(if \<not> isInitialized s then initialize c s w else Some (Inr (), s, w)) = Some (r, s1, w1)"
    using lazy_initialize_total[of s c w] by auto
  show ?thesis
  proof (cases r)
    case (Inl e)
    with l show ?thesis by (simp add: internal_failure_def)
  next
    case (Inr u)
    with l have "(if \<not> isInitialized s then initialize c s w else Some (Inr (), s, w))
                   = Some (Inr u, s1, w1)" by simp
    then have ready: "isInitialized s1" by (rule lazy_initialize_ready)
    obtain e w2 where "getEmbedding c s1 (extractSearchTerms userMessage) w1 = (Inl e, w2)"
      using getEmbedding_provider_down[OF assms] by blast
    with ready have
      "searchRelevantContext_try c (extractSearchTerms userMessage) maxChunks s1 w1 = Some (Inl e, s1, w2)"
      by (rule searchRelevantContext_try_embedding_fails)
    with l Inr show ?thesis by (simp add: internal_failure_def)
  qed
qed

lemma internal_failure_unreadable:
  assumes "\<not> isInitialized s" "fst (extractText c w) = Inl e"
  shows "internal_failure c userMessage maxChunks s w"
proof -
  obtain w1 where "extractText c w = (Inl e, w1)"
    using assms(2) by (cases "extractText c w") simp
  then have "initialize c s w = Some (Inl e, s\<lparr>embeddings := True\<rparr>, w1)"
    by (simp add: initialize_def loadAndProcessPDF_def)
  with assms(1) show ?thesis by (simp add: internal_failure_def)
qed

text \<open>
  Claim C8. For every message, every \<open>maxChunks\<close>, every state of the service and every
  behaviour of the two collaborators, \<^verbatim>\<open>getRelevantSections\<close> returns a string and never
  raises; it returns the empty string whenever a step inside it throws, in particular when
  the embedding provider fails at every call and when the service is not initialized and
  the document cannot be read.
\<close>

theorem getRelevantSections_never_raises:
  "(\<exists>r s' w'. getRelevantSections c userMessage maxChunks s w = Some (Inr r, s', w')) \<and>
   (internal_failure c userMessage maxChunks s w \<longrightarrow>
      (\<exists>s' w'. getRelevantSections c userMessage maxChunks s w = Some (Inr '''', s', w'))) \<and>
   ((\<forall>text w0. \<exists>e. fst (embedContent c text w0) = Inl e) \<longrightarrow>
      (\<exists>s' w'. getRelevantSections c userMessage maxChunks s w = Some (Inr '''', s', w'))) \<and>
   (\<not> isInitialized s \<and> (\<exists>e. fst (extractText c w) = Inl e) \<longrightarrow>
      (\<exists>s' w'. getRelevantSections c userMessage maxChunks s w = Some (Inr '''', s', w')))"
  using getRelevantSections_total[of c userMessage maxChunks s w]
        getRelevantSections_internal_failure[of c userMessage maxChunks s w]
        internal_failure_provider_down[of c userMessage maxChunks s w]
        internal_failure_unreadable[of s c w _ userMessage maxChunks]
  by blast

theorem getRelevantSections_never_raises_witness:
  "(\<forall>text w0. \<exists>e. fst (embedContent (scripted short_doc 0 always_fails) text w0) = Inl e) \<and>
   \<not> isInitialized init_state \<and>
   (\<exists>e. fst (extractText (scripted short_doc 0 always_fails) \<lparr>reads = 0, embeds = 0\<rparr>) = Inl e) \<and>
   internal_failure (scripted short_doc 0 always_fails) ''anything'' 3 init_state
       \<lparr>reads = 0, embeds = 0\<rparr> \<and>
   (\<exists>s' w'. getRelevantSections (scripted short_doc 0 always_fails) ''anything'' 3 init_state
       \<lparr>reads = 0, embeds = 0\<rparr> = Some (Inr '''', s', w'))"
proof -
  have p: "\<forall>text w0. \<exists>e. fst (embedContent (scripted short_doc 0 always_fails) text w0) = Inl e"
    by (simp add: scripted_def always_fails_def)
  have i: "\<not> isInitialized init_state" by (simp add: init_state_def)
  have x: "\<exists>e. fst (extractText (scripted short_doc 0 always_fails) \<lparr>reads = 0, embeds = 0\<rparr>) = Inl e"
    by (simp add: scripted_def)
  have f: "internal_failure (scripted short_doc 0 always_fails) ''anything'' 3 init_state
       \<lparr>reads = 0, embeds = 0\<rparr>"
    using i by (simp add: internal_failure_def initialize_unreadable)
  from getRelevantSections_never_raises
         [of "scripted short_doc 0 always_fails" "''anything''" 3 init_state
             "\<lparr>reads = 0, embeds = 0\<rparr>"]
  show ?thesis using p i x f by blast
qed

section \<open>The index over sequences of operations\<close>

lemma searchRelevantContext_state:
  assumes "searchRelevantContext c query k s w = Some (r, s', w')"
  shows "(isInitialized s \<longrightarrow> s' = s) \<and>
         (\<not> isInitialized s \<longrightarrow> (\<exists>r1 w1. initialize c s w = Some (r1, s', w1)))"
  using assms
  by (auto simp: searchRelevantContext_def searchRelevantContext_try_def
           split: option.splits prod.splits sum.splits if_splits)

lemma getRelevantSections_state:
  assumes "getRelevantSections c userMessage maxChunks s w = Some (r, s', w')"
  shows "(isInitialized s \<longrightarrow> s' = s) \<and>
         (\<not> isInitialized s \<longrightarrow> (\<exists>r1 w1. initialize c s w = Some (r1, s', w1)))"
proof -
  obtain r0 s1 w1 where l:
    "(if \<not> isInitialized s then initialize c s w else Some (Inr (), s, w)) = Some (r0, s1, w1)"
    using lazy_initialize_total[of s c w] by auto
  show ?thesis
  proof (cases r0)
    case (Inl e)
    with l assms have "s' = s1"
      by (simp add: getRelevantSections_def getRelevantSections_try_def)
    with l Inl show ?thesis by (auto split: if_splits)
  next
    case (Inr u)
    with l have "(if \<not> isInitialized s then initialize c s w else Some (Inr (), s, w))
                   = Some (Inr u, s1, w1)" by simp
    then have ready: "isInitialized s1" by (rule lazy_initialize_ready)
    from l Inr assms obtain r2 where
      "searchRelevantContext c (extractSearchTerms userMessage) maxChunks s1 w1 = Some (r2, s', w')"
      by (auto simp: getRelevantSections_def getRelevantSections_try_def
               split: option.splits prod.splits sum.splits)
    from searchRelevantContext_state[OF this] ready have "s' = s1" by simp
    with l show ?thesis by (auto split: if_splits)
  qed
qed

lemma run_op_total: "\<exists>s' w'. run_op c operation s w = Some (s', w')"
proof (cases operation)
  case Initialize
  then show ?thesis using initialize_total[of c s w] by auto
next
  case RefreshVectorStore
  then show ?thesis using refreshVectorStore_total[of c s w] by auto
next
  case (SearchRelevantContext query k)
  then show ?thesis using searchRelevantContext_total[of c query k s w] by auto
next
  case (GetRelevantSections userMessage maxChunks)
  then show ?thesis using getRelevantSections_total[of c userMessage maxChunks s w] by auto
qed

lemma lazy_state_prefix_built:
  assumes "(isInitialized s \<longrightarrow> s' = s) \<and>
           (\<not> isInitialized s \<longrightarrow> (\<exists>r1 w1. initialize c s w = Some (r1, s', w1)))"
    and "prefix_built c s"
  shows "prefix_built c s'"
proof (cases "isInitialized s")
  case True
  with assms show ?thesis by simp
next
  case False
  with assms(1) obtain r1 w1 where i: "initialize c s w = Some (r1, s', w1)" by blast
  from initialize_result[OF i] assms(2) show ?thesis by simp
qed

lemma lazy_state_ready_full:
  assumes "(isInitialized s \<longrightarrow> s' = s) \<and>
           (\<not> isInitialized s \<longrightarrow> (\<exists>r1 w1. initialize c s w = Some (r1, s', w1)))"
    and "isInitialized s \<longrightarrow> fully_built c s" and "isInitialized s'"
  shows "fully_built c s'"
proof (cases "isInitialized s")
  case True
  with assms show ?thesis by simp
next
  case False
  with assms(1) obtain r1 w1 where i: "initialize c s w = Some (r1, s', w1)" by blast
  show ?thesis
  proof (cases r1)
    case (Inl e)
    with initialize_result[OF i] False assms(3) show ?thesis by simp
  next
    case (Inr u)
    with initialize_result[OF i] show ?thesis by simp
  qed
qed

lemma run_op_prefix_built:
  assumes "run_op c operation s w = Some (s', w')" "prefix_built c s"
  shows "prefix_built c s'"
proof (cases operation)
  case Initialize
  with assms(1) obtain r where "initialize c s w = Some (r, s', w')" by auto
  from initialize_result[OF this] assms(2) show ?thesis by simp
next
  case RefreshVectorStore
  with assms(1) obtain r where "refreshVectorStore c s w = Some (r, s', w')" by auto
  from refreshVectorStore_result[OF this] show ?thesis by simp
next
  case (SearchRelevantContext query k)
  with assms(1) obtain r where "searchRelevantContext c query k s w = Some (r, s', w')" by auto
  from lazy_state_prefix_built[OF searchRelevantContext_state[OF this] assms(2)]
  show ?thesis .
next
  case (GetRelevantSections userMessage maxChunks)
  with assms(1) obtain r where
    "getRelevantSections c userMessage maxChunks s w = Some (r, s', w')" by auto
  from lazy_state_prefix_built[OF getRelevantSections_state[OF this] assms(2)]
  show ?thesis .
qed

lemma run_op_ready_full:
  assumes "run_op c operation s w = Some (s', w')" "operation \<noteq> Initialize"
    "isInitialized s \<longrightarrow> fully_built c s" "isInitialized s'"
  shows "fully_built c s'"
proof (cases operation)
  case Initialize
  with assms(2) show ?thesis by simp
next
  case RefreshVectorStore
  with assms(1) obtain r where r: "refreshVectorStore c s w = Some (r, s', w')" by auto
  show ?thesis
  proof (cases r)
    case (Inl e)
    with refreshVectorStore_result[OF r] assms(4) show ?thesis by simp
  next
    case (Inr u)
    with refreshVectorStore_result[OF r] show ?thesis by simp
  qed
next
  case (SearchRelevantContext query k)
  with assms(1) obtain r where "searchRelevantContext c query k s w = Some (r, s', w')" by auto
  from lazy_state_ready_full[OF searchRelevantContext_state[OF this] assms(3,4)]
  show ?thesis .
next
  case (GetRelevantSections userMessage maxChunks)
  with assms(1) obtain r where
    "getRelevantSections c userMessage maxChunks s w = Some (r, s', w')" by auto
  from lazy_state_ready_full[OF getRelevantSections_state[OF this] assms(3,4)]
  show ?thesis .
qed

lemma run_ops_invariant:
  assumes "prefix_built c s"
  shows "\<exists>s' w'. run_ops c ops s w = Some (s', w') \<and> prefix_built c s' \<and>
           (Initialize \<notin> set ops \<longrightarrow> (isInitialized s \<longrightarrow> fully_built c s) \<longrightarrow>
              isInitialized s' \<longrightarrow> fully_built c s')"
  using assms
proof (induction ops arbitrary: s w)
  case Nil
  then show ?case by simp
next
  case (Cons operation rest)
  obtain s1 w1 where step: "run_op c operation s w = Some (s1, w1)"
    using run_op_total[of c operation s w] by auto
  have p1: "prefix_built c s1" using run_op_prefix_built[OF step Cons.prems] .
  from Cons.IH[OF p1, of w1] obtain s' w' where r:
    "run_ops c rest s1 w1 = Some (s', w')" "prefix_built c s'"
    "Initialize \<notin> set rest \<longrightarrow> (isInitialized s1 \<longrightarrow> fully_built c s1) \<longrightarrow>
       isInitialized s' \<longrightarrow> fully_built c s'"
    by blast
  have "Initialize \<notin> set (operation # rest) \<longrightarrow> (isInitialized s \<longrightarrow> fully_built c s) \<longrightarrow>
          isInitialized s' \<longrightarrow> fully_built c s'"
    using r(3) run_op_ready_full[OF step] by auto
  with step r(1,2) show ?case by simp
qed

lemma prefix_built_init_state: "prefix_built c init_state"
  by (rule prefix_built_empty) (simp add: init_state_def)

lemma decimal_one: "decimal (Suc 0) = ''1''"
  by code_simp

lemma toFixed3_one: "toFixed3 (Num 1) = ''1.000''"
  by code_simp

lemma initialize_long_doc_partial:
  assumes "reads w < readable" "\<not> failing (embeds w)" "failing (Suc (embeds w))"
  shows "initialize (scripted long_doc readable failing) s w =
           Some (Inl (ProviderError ''quota exceeded''),
                 partial_index (isInitialized s),
                 \<lparr>reads = Suc (reads w), embeds = Suc (Suc (embeds w))\<rparr>)"
  using assms
  by (simp add: initialize_def loadAndProcessPDF_def scripted_def splitIntoChunks_long_doc
        generateChunkEmbeddings_def getEmbedding_def partial_index_def)

text \<open>
  Claim C3, as stated: after any sequence of operations the index is either empty and
  uninitialized or fully built. A build pushes each embedding as soon as it arrives and
  nothing removes them when a later one fails. With a document of two chunks and a
  provider that fails at its second call, \<^verbatim>\<open>initialize\<close> leaves one embedding for two
  chunks. When the provider fails at its fourth call, a second \<^verbatim>\<open>initialize\<close> on the
  initialized service leaves the same partial index with \<open>isInitialized\<close> still true, and
  the next query is answered from the one embedded chunk.
\<close>

theorem partial_index_counterexample:
  "run_ops (scripted long_doc 5 (fails_at 1)) [Initialize] init_state \<lparr>reads = 0, embeds = 0\<rparr> =
     Some (partial_index False, \<lparr>reads = 1, embeds = 2\<rparr>) \<and>
   run_ops (scripted long_doc 5 (fails_at 3)) [Initialize, Initialize] init_state
       \<lparr>reads = 0, embeds = 0\<rparr> =
     Some (partial_index True, \<lparr>reads = 2, embeds = 4\<rparr>) \<and>
   length (documentChunks (partial_index True)) = 2 \<and>
   length (chunkEmbeddings (partial_index True)) = 1 \<and>
   isInitialized (partial_index True) \<and>
   searchRelevantContext (scripted long_doc 5 (fails_at 3)) ''password'' 3 (partial_index True)
       \<lparr>reads = 2, embeds = 4\<rparr> =
     Some (Inr (''Relevant Section 1 (Similarity: 1.000):'' @ [CHR 0x0A]
                 @ replicate 1000 CHR ''a'' @ [CHR 0x0A]),
           partial_index True, \<lparr>reads = 2, embeds = 5\<rparr>)"
proof -
  have a: "run_ops (scripted long_doc 5 (fails_at 1)) [Initialize] init_state
             \<lparr>reads = 0, embeds = 0\<rparr> = Some (partial_index False, \<lparr>reads = 1, embeds = 2\<rparr>)"
    by (simp add: initialize_long_doc_partial fails_at_def init_state_def)
  have "initialize (scripted long_doc 5 (fails_at 3)) init_state \<lparr>reads = 0, embeds = 0\<rparr> =
          Some (Inr (), partial_index True\<lparr>chunkEmbeddings :=
                  chunkEmbeddings (partial_index True)
                  @ [\<lparr>chunk = replicate 700 CHR ''a'', embedding = [Num 1, Num 0], index = 1\<rparr>]\<rparr>,
                \<lparr>reads = 1, embeds = 2\<rparr>)"
    by (simp add: initialize_def loadAndProcessPDF_def scripted_def splitIntoChunks_long_doc
        generateChunkEmbeddings_def getEmbedding_def partial_index_def fails_at_def init_state_def)
  then have b: "run_ops (scripted long_doc 5 (fails_at 3)) [Initialize, Initialize] init_state
       \<lparr>reads = 0, embeds = 0\<rparr> = Some (partial_index True, \<lparr>reads = 2, embeds = 4\<rparr>)"
    by (simp add: initialize_long_doc_partial fails_at_def)
       (simp add: partial_index_def)
  have t: "topK [Num 1, Num 0] 3 (chunkEmbeddings (partial_index True)) =
             Inr [\<lparr>chunk = replicate 1000 CHR ''a'', embedding = [Num 1, Num 0], index = 0,
                   similarity = Num 1\<rparr>]"
    by (simp add: topK_def partial_index_def cosineSimilarity_unit js_sort_def js_slice_def)
  have c: "searchRelevantContext (scripted long_doc 5 (fails_at 3)) ''password'' 3
             (partial_index True) \<lparr>reads = 2, embeds = 4\<rparr> =
     Some (Inr (''Relevant Section 1 (Similarity: 1.000):'' @ [CHR 0x0A]
                 @ replicate 1000 CHR ''a'' @ [CHR 0x0A]),
           partial_index True, \<lparr>reads = 2, embeds = 5\<rparr>)"
    unfolding searchRelevantContext_def searchRelevantContext_try_def
    by (simp add: getEmbedding_def scripted_def fails_at_def t format_context_def
          format_section_def decimal_one toFixed3_one)
       (simp add: partial_index_def)
  show ?thesis using a b c by (simp add: partial_index_def)
qed

text \<open>
  Claim C3, amended.
  \<^item> Every sequence of \<^verbatim>\<open>initialize\<close>, \<^verbatim>\<open>refreshVectorStore\<close> and query operations started
    on a new service returns, and afterwards the index holds the first chunks of
    \<open>documentChunks\<close>: the entries of \<open>chunkEmbeddings\<close> are, in order, chunk number \<open>k\<close>
    with the index \<open>k\<close> and the vector that the provider returned for that chunk when it
    was asked for these chunks one after the other. If \<^verbatim>\<open>initialize\<close> is run only by the
    queries, on a service that is not initialized, then an initialized service holds all
    its chunks.
  \<^item> A build of a readable document stores what the provider answers until its first
    failure and nothing else. When the provider answers for every chunk, the build
    returns normally and leaves \<open>isInitialized\<close> true and one entry for every chunk.
    When the provider fails at a chunk, the build throws the error of the provider and
    leaves the entries of the chunks before that one, fewer than there are chunks;
    \<^verbatim>\<open>initialize\<close> then leaves \<open>isInitialized\<close> as it was and \<^verbatim>\<open>refreshVectorStore\<close> leaves it
    false.
\<close>

theorem index_holds_prefix_of_chunks:
  "(\<exists>s' w'. run_ops c ops init_state w = Some (s', w') \<and> prefix_built c s' \<and>
      (Initialize \<notin> set ops \<longrightarrow> isInitialized s' \<longrightarrow> fully_built c s')) \<and>
   (extractText c wa = (Inr fullText, wb) \<and> splitIntoChunks fullText 1000 200 = Some chunks \<and>
    provider_run c chunks wb = (vs, r, wc) \<longrightarrow>
      initialize c sa wa =
        Some (build_result r,
              sa\<lparr>embeddings := True, documentChunks := chunks,
                 chunkEmbeddings := stored_entries chunks vs,
                 isInitialized := (r = None \<or> isInitialized sa)\<rparr>, wc) \<and>
      (embeddings sa \<longrightarrow>
         refreshVectorStore c sa wa =
           Some (build_result r,
                 sa\<lparr>isInitialized := (r = None), documentChunks := chunks,
                    chunkEmbeddings := stored_entries chunks vs\<rparr>, wc)) \<and>
      map chunk (stored_entries chunks vs) = take (length vs) chunks \<and>
      map embedding (stored_entries chunks vs) = vs \<and>
      map index (stored_entries chunks vs) = [0..<length vs] \<and>
      length vs \<le> length chunks \<and>
      (r = None) = (length vs = length chunks))"
proof (intro conjI impI)
  show "\<exists>s' w'. run_ops c ops init_state w = Some (s', w') \<and> prefix_built c s' \<and>
      (Initialize \<notin> set ops \<longrightarrow> isInitialized s' \<longrightarrow> fully_built c s')"
    using run_ops_invariant[OF prefix_built_init_state, of c ops w]
    by (auto simp: init_state_def)
next
  assume h: "extractText c wa = (Inr fullText, wb) \<and>
    splitIntoChunks fullText 1000 200 = Some chunks \<and> provider_run c chunks wb = (vs, r, wc)"
  then have x: "extractText c wa = (Inr fullText, wb)"
    and sp: "splitIntoChunks fullText 1000 200 = Some chunks"
    and run: "provider_run c chunks wb = (vs, r, wc)"
    by simp_all
  show "initialize c sa wa =
        Some (build_result r,
              sa\<lparr>embeddings := True, documentChunks := chunks,
                 chunkEmbeddings := stored_entries chunks vs,
                 isInitialized := (r = None \<or> isInitialized sa)\<rparr>, wc)"
    using x sp run by (rule initialize_run)
  show "refreshVectorStore c sa wa =
           Some (build_result r,
                 sa\<lparr>isInitialized := (r = None), documentChunks := chunks,
                    chunkEmbeddings := stored_entries chunks vs\<rparr>, wc)"
    if "embeddings sa"
    using x sp that run by (rule refreshVectorStore_run)
  from provider_run_length[OF run]
  show len: "length vs \<le> length chunks" and "(r = None) = (length vs = length chunks)"
    by simp_all
  from stored_entries_fields[OF len]
  show "map chunk (stored_entries chunks vs) = take (length vs) chunks"
    "map embedding (stored_entries chunks vs) = vs"
    "map index (stored_entries chunks vs) = [0..<length vs]"
    by simp_all
qed

theorem index_holds_prefix_of_chunks_witness:
  "run_ops (scripted short_doc 1 never_fails) [SearchRelevantContext ''password'' 3] init_state
       \<lparr>reads = 0, embeds = 0\<rparr> = Some (short_index, \<lparr>reads = 1, embeds = 2\<rparr>) \<and>
   Initialize \<notin> set [SearchRelevantContext ''password'' 3] \<and>
   isInitialized short_index \<and>
   prefix_built (scripted short_doc 1 never_fails) short_index \<and>
   fully_built (scripted short_doc 1 never_fails) short_index \<and>
   extractText (scripted long_doc 5 (fails_at 3)) \<lparr>reads = 1, embeds = 2\<rparr> =
     (Inr long_doc, \<lparr>reads = 2, embeds = 2\<rparr>) \<and>
   splitIntoChunks long_doc 1000 200 =
     Some [replicate 1000 CHR ''a'', replicate 700 CHR ''a''] \<and>
   provider_run (scripted long_doc 5 (fails_at 3))
       [replicate 1000 CHR ''a'', replicate 700 CHR ''a''] \<lparr>reads = 2, embeds = 2\<rparr> =
     ([Num 1, Num 0] # [], Some (ProviderError ''quota exceeded''), \<lparr>reads = 2, embeds = 4\<rparr>) \<and>
   embeddings short_index \<and>
   initialize (scripted long_doc 5 (fails_at 3)) short_index \<lparr>reads = 1, embeds = 2\<rparr> =
     Some (Inl (ProviderError ''quota exceeded''), partial_index True,
           \<lparr>reads = 2, embeds = 4\<rparr>) \<and>
   refreshVectorStore (scripted long_doc 5 (fails_at 3)) short_index \<lparr>reads = 1, embeds = 2\<rparr> =
     Some (Inl (ProviderError ''quota exceeded''), partial_index False,
           \<lparr>reads = 2, embeds = 4\<rparr>) \<and>
   chunkEmbeddings (partial_index True) =
     [\<lparr>chunk = replicate 1000 CHR ''a'', embedding = [Num 1, Num 0], index = 0\<rparr>]"
proof -
  have t: "\<exists>r. topK [Num 1, Num 0] 3 (chunkEmbeddings short_index) = Inr r"
    by (simp add: topK_def short_index_def cosineSimilarity_unit)
  have g: "getEmbedding (scripted short_doc 1 never_fails) short_index ''password''
             \<lparr>reads = 1, embeds = 1\<rparr> = (Inr [Num 1, Num 0], \<lparr>reads = 1, embeds = 2\<rparr>)"
    by (simp add: getEmbedding_def scripted_def never_fails_def short_index_def)
  have n: "\<not> isInitialized init_state" by (simp add: init_state_def)
  have r: "run_ops (scripted short_doc 1 never_fails) [SearchRelevantContext ''password'' 3]
             init_state \<lparr>reads = 0, embeds = 0\<rparr> = Some (short_index, \<lparr>reads = 1, embeds = 2\<rparr>)"
    using t g n
    by (auto simp: searchRelevantContext_def searchRelevantContext_try_def
          initialize_short_doc never_fails_def)
  have i: "isInitialized short_index" "embeddings short_index" by (simp_all add: short_index_def)
  have x: "extractText (scripted long_doc 5 (fails_at 3)) \<lparr>reads = 1, embeds = 2\<rparr> =
     (Inr long_doc, \<lparr>reads = 2, embeds = 2\<rparr>)"
    by (simp add: scripted_def)
  have p: "provider_run (scripted long_doc 5 (fails_at 3))
       [replicate 1000 CHR ''a'', replicate 700 CHR ''a''] \<lparr>reads = 2, embeds = 2\<rparr> =
     ([Num 1, Num 0] # [], Some (ProviderError ''quota exceeded''), \<lparr>reads = 2, embeds = 4\<rparr>)"
    by (simp add: scripted_def fails_at_def)
  from index_holds_prefix_of_chunks
         [where c = "scripted short_doc 1 never_fails"
            and ops = "[SearchRelevantContext ''password'' 3]"
            and w = "\<lparr>reads = 0, embeds = 0\<rparr>"]
  have 1: "prefix_built (scripted short_doc 1 never_fails) short_index"
    "fully_built (scripted short_doc 1 never_fails) short_index"
    using r i by auto
  from index_holds_prefix_of_chunks
         [where c = "scripted long_doc 5 (fails_at 3)" and sa = short_index
            and wa = "\<lparr>reads = 1, embeds = 2\<rparr>" and fullText = long_doc
            and wb = "\<lparr>reads = 2, embeds = 2\<rparr>"
            and chunks = "[replicate 1000 CHR ''a'', replicate 700 CHR ''a'']"
            and vs = "[Num 1, Num 0] # []" and r = "Some (ProviderError ''quota exceeded'')"
            and wc = "\<lparr>reads = 2, embeds = 4\<rparr>"]
       x splitIntoChunks_long_doc p i
  have 2: "initialize (scripted long_doc 5 (fails_at 3)) short_index \<lparr>reads = 1, embeds = 2\<rparr> =
     Some (Inl (ProviderError ''quota exceeded''), partial_index True,
           \<lparr>reads = 2, embeds = 4\<rparr>)"
    "refreshVectorStore (scripted long_doc 5 (fails_at 3)) short_index \<lparr>reads = 1, embeds = 2\<rparr> =
     Some (Inl (ProviderError ''quota exceeded''), partial_index False,
           \<lparr>reads = 2, embeds = 4\<rparr>)"
    by (simp_all add: build_result_def stored_entries_one short_index_def partial_index_def)
  show ?thesis
    using r i 1 x splitIntoChunks_long_doc p 2 by (simp add: partial_index_def)
qed

section \<open>Properties of the top-k selection\<close>














end
